theory Spec2Isabelle
  imports Complex_Main "HOL-Library.Log_Nat"
begin

section \<open>The EIP-4844 fee-market simulation: data model\<close>

text \<open>
  The notebook keeps its parameters in a global dictionary \<open>constants\<close>. The model passes
  that dictionary to every function that reads it, as a record, and \<open>constants\<close> below is
  the dictionary the notebook defines. The two execution-gas bounds are written \<open>30e6\<close>
  and \<open>15e6\<close> in the source (Python floats), the others are Python integers.

  Gas amounts and blob counts are Python integers (unbounded), modelled as \<open>int\<close>.
  Fees and prices are Python numbers, integers or finite floats, modelled as the
  rationals they denote: Python compares such numbers exactly, and validity and the two
  limits of the block builder are comparisons. The premium is computed on these
  rationals without rounding; it decides the order of the scan only. The price update
  is arithmetic on floats and is modelled on doubles, operation by operation.
\<close>

datatype py_error = ZeroDivisionError | OverflowError

record config =
  BLOCK_RESOURCE_LIMITS :: rat
  BLOCK_RESOURCE_TARGETS :: rat
  BASEFEE_MAX_CHANGE_DENOMINATOR :: int
  MAX_DATA_GAS_PER_BLOCK :: int
  TARGET_DATA_GAS_PER_BLOCK :: int
  DATA_GAS_PER_BLOB :: int
  MIN_DATA_GASPRICE :: int
  DATA_GASPRICE_UPDATE_FRACTION :: int

definition constants :: config where
  "constants =
     \<lparr> BLOCK_RESOURCE_LIMITS = 30000000,
       BLOCK_RESOURCE_TARGETS = 15000000,
       BASEFEE_MAX_CHANGE_DENOMINATOR = 8,
       MAX_DATA_GAS_PER_BLOCK = 2 ^ 19,
       TARGET_DATA_GAS_PER_BLOCK = 2 ^ 18,
       DATA_GAS_PER_BLOB = 2 ^ 17,
       MIN_DATA_GASPRICE = 1,
       DATA_GASPRICE_UPDATE_FRACTION = 2225652 \<rparr>"

text \<open>
  \<open>Transaction\<close> and its subclass \<open>BlobTransaction\<close>; \<open>isinstance(tx, BlobTransaction)\<close>
  is the discriminator \<open>is_BlobTransaction\<close>. The hash, drawn at random by the
  constructor, is a field like the others.
\<close>

datatype tx =
    is_Transaction: Transaction
      (tx_hash: string) (max_priority_fee_per_gas: rat) (gas_used: int) (max_fee_per_gas: rat)
  | is_BlobTransaction: BlobTransaction
      (tx_hash: string) (max_priority_fee_per_gas: rat) (gas_used: int) (max_fee_per_gas: rat)
      (max_fee_per_data_gas: rat) (blob_hashes: int)

datatype block = Block (txs: "tx list")

text \<open>
  The state dictionary \<open>s\<close> of the simulation. The dictionary \<open>demand\<close> is kept as the
  list of its items in insertion order, which is the order \<open>demand.items()\<close> yields and
  the one the stable sort of \<open>build_block\<close> falls back on.
\<close>

record state =
  demand :: "(string \<times> tx) list"
  price :: rat
  excess_data_gas :: int
  latest_block :: block

section \<open>The data-gas price\<close>

text \<open>
  The \<open>while\<close> loop of \<open>fake_exponential\<close>, on its three variables. \<open>//\<close> on Python
  integers is floor division, which is \<open>div\<close> on \<open>int\<close>; in the loop the divisor is zero
  only when \<open>denominator\<close> is, and then the loop is never entered by the caller below.
  That the loop ends on every input is proved further down.
\<close>

function fake_exponential_loop :: "int \<Rightarrow> int \<Rightarrow> int \<Rightarrow> int \<Rightarrow> int \<Rightarrow> int" where
  "fake_exponential_loop numerator denominator i output numerator_accum =
     (if numerator_accum > 0
      then fake_exponential_loop numerator denominator (i + 1)
             (output + numerator_accum)
             ((numerator_accum * numerator) div (denominator * i))
      else output)"
  by pat_completeness auto

text \<open>
  The final \<open>output // denominator\<close> raises \<open>ZeroDivisionError\<close> when \<open>denominator\<close> is
  zero (the loop has then run zero times, \<open>numerator_accum\<close> starting at 0).
\<close>

definition fake_exponential :: "int \<Rightarrow> int \<Rightarrow> int \<Rightarrow> py_error + int" where
  "fake_exponential factor numerator denominator =
     (let output = fake_exponential_loop numerator denominator 1 0 (factor * denominator)
      in if denominator = 0 then Inl ZeroDivisionError else Inr (output div denominator))"

definition calc_price_data :: "config \<Rightarrow> int \<Rightarrow> py_error + int" where
  "calc_price_data c excess =
     fake_exponential (MIN_DATA_GASPRICE c) excess (DATA_GASPRICE_UPDATE_FRACTION c)"

section \<open>Transactions\<close>

fun is_valid :: "tx \<Rightarrow> rat \<Rightarrow> int \<Rightarrow> bool" where
  "is_valid (Transaction h tip g fee) p price_data = (fee \<ge> p)"
| "is_valid (BlobTransaction h tip g fee data_fee blobs) p price_data =
     (fee \<ge> p \<and> data_fee \<ge> of_int price_data)"

definition get_premium :: "tx \<Rightarrow> rat \<Rightarrow> rat" where
  "get_premium t p =
     (let priority_fee = min (max_fee_per_gas t - p) (max_priority_fee_per_gas t)
      in of_int (gas_used t) * priority_fee)"

section \<open>Python floats\<close>

text \<open>
  \<open>update_price\<close> computes in Python floats: IEEE 754 binary64 numbers, every operation
  rounded to nearest, ties to even. A float is a finite double (the rational it denotes),
  an infinity or a NaN. The two zeros are one value here: Python's \<open>==\<close>, \<open><\<close> and
  \<open>>\<close> do not tell them apart, and division by either raises.
\<close>

datatype pyfloat = Finite rat | PosInf | NegInf | NaN

text \<open>The integer nearest to \<open>y\<close>, the even one of the two when \<open>y\<close> is half-way.\<close>

definition round_half_even :: "rat \<Rightarrow> int" where
  "round_half_even y =
     (let n = \<lfloor>y\<rfloor>; r = y - of_int n
      in if r < 1 / 2 then n else if 1 / 2 < r then n + 1 else if even n then n else n + 1)"

text \<open>
  The binary exponent of a non-zero \<open>x\<close>: the \<open>e\<close> with \<open>2^e \<le> \<bar>x\<bar> < 2^(e+1)\<close>
  (lemma \<open>exponent_of_bounds\<close>).
\<close>

definition exponent_of :: "rat \<Rightarrow> int" where
  "exponent_of x =
     (if 1 \<le> \<bar>x\<bar> then bitlen \<lfloor>\<bar>x\<bar>\<rfloor> - 1 else - bitlen (\<lceil>1 / \<bar>x\<bar>\<rceil> - 1))"

text \<open>
  The spacing of the doubles around \<open>x\<close>: 53 significant bits, and the spacing of
  the subnormal numbers (\<open>2^-1074\<close>) below \<open>2^-1022\<close>. \<open>round_double\<close> rounds to
  that grid, with no bound on the exponent above.
\<close>

definition quantum :: "rat \<Rightarrow> rat" where
  "quantum x = 2 powi (max (exponent_of x) (- 1022) - 52)"

definition round_double :: "rat \<Rightarrow> rat" where
  "round_double x =
     (if x = 0 then 0 else of_int (round_half_even (x / quantum x)) * quantum x)"

text \<open>The result of an operation: a rounded value of magnitude \<open>2^1024\<close> or more is an infinity.\<close>

definition to_double :: "rat \<Rightarrow> pyfloat" where
  "to_double x =
     (let r = round_double x
      in if of_int (2 ^ 1024) \<le> r then PosInf
         else if r \<le> - of_int (2 ^ 1024) then NegInf
         else Finite r)"

text \<open>
  The conversion Python applies to a number that meets a float in an operation. An
  integer is rounded, and raises \<open>OverflowError\<close> when it is too large; a float is a
  double already and is left as it is.
\<close>

definition py_float :: "rat \<Rightarrow> py_error + pyfloat" where
  "py_float x =
     (let r = round_double x
      in if of_int (2 ^ 1024) \<le> \<bar>r\<bar> then Inl OverflowError else Inr (Finite r))"

definition float_of_int :: "int \<Rightarrow> py_error + pyfloat" where
  "float_of_int n = py_float (of_int n)"

fun fneg :: "pyfloat \<Rightarrow> pyfloat" where
  "fneg (Finite a) = Finite (- a)"
| "fneg PosInf = NegInf"
| "fneg NegInf = PosInf"
| "fneg NaN = NaN"

fun fadd :: "pyfloat \<Rightarrow> pyfloat \<Rightarrow> pyfloat" where
  "fadd (Finite a) (Finite b) = to_double (a + b)"
| "fadd NaN y = NaN"
| "fadd x NaN = NaN"
| "fadd PosInf NegInf = NaN"
| "fadd NegInf PosInf = NaN"
| "fadd PosInf y = PosInf"
| "fadd x PosInf = PosInf"
| "fadd NegInf y = NegInf"
| "fadd x NegInf = NegInf"

definition fsub :: "pyfloat \<Rightarrow> pyfloat \<Rightarrow> pyfloat" where
  "fsub x y = fadd x (fneg y)"

fun negative :: "pyfloat \<Rightarrow> bool" where
  "negative (Finite a) = (a < 0)"
| "negative NegInf = True"
| "negative x = False"

fun fmul :: "pyfloat \<Rightarrow> pyfloat \<Rightarrow> pyfloat" where
  "fmul (Finite a) (Finite b) = to_double (a * b)"
| "fmul NaN y = NaN"
| "fmul x NaN = NaN"
| "fmul x y =
     (if x = Finite 0 \<or> y = Finite 0 then NaN
      else if negative x = negative y then PosInf else NegInf)"

text \<open>
  Float division raises \<open>ZeroDivisionError\<close> on a zero divisor, whatever the dividend;
  overflow gives an infinity, as in the other operations.
\<close>

fun fdiv :: "pyfloat \<Rightarrow> pyfloat \<Rightarrow> py_error + pyfloat" where
  "fdiv x (Finite b) =
     (if b = 0 then Inl ZeroDivisionError
      else case x of
             Finite a \<Rightarrow> Inr (to_double (a / b))
           | PosInf \<Rightarrow> Inr (if 0 < b then PosInf else NegInf)
           | NegInf \<Rightarrow> Inr (if 0 < b then NegInf else PosInf)
           | NaN \<Rightarrow> Inr NaN)"
| "fdiv x NaN = Inr NaN"
| "fdiv (Finite a) y = Inr (Finite 0)"
| "fdiv x y = Inr NaN"

text \<open>Python's \<open>v > 0\<close>, \<open>v >= c\<close> and \<open>v <= c\<close> on a float \<open>v\<close>.\<close>

fun fpos :: "pyfloat \<Rightarrow> bool" where
  "fpos (Finite a) = (0 < a)"
| "fpos PosInf = True"
| "fpos x = False"

fun fge :: "pyfloat \<Rightarrow> rat \<Rightarrow> bool" where
  "fge (Finite a) c = (c \<le> a)"
| "fge PosInf c = True"
| "fge x c = False"

fun fle :: "pyfloat \<Rightarrow> rat \<Rightarrow> bool" where
  "fle (Finite a) c = (a \<le> c)"
| "fle NegInf c = True"
| "fle x c = False"

section \<open>The two update rules\<close>

text \<open>
  \<open>update_price\<close> and \<open>update_excess_data_gas\<close> return the pair of the state variable's
  name and its new value; the model returns the value. Their arguments \<open>params\<close>,
  \<open>step\<close> and \<open>h\<close> are not read.

  \<open>update_price\<close> evaluates \<open>price * (1 + (utilized - target) / (target * denominator))\<close>
  in floats, in Python's order: \<open>utilized\<close> (an integer) is converted and \<open>target\<close>
  subtracted, the denominator (an integer) is converted and multiplied by \<open>target\<close>, the
  quotient is taken and added to 1, and the price (an integer at the first step, a float
  afterwards) is converted and multiplied. \<open>target\<close> is the float the constant denotes.
  The result may be an infinity or a NaN, which the type of \<open>price\<close> in \<open>state\<close> does not
  hold: the model stops at one update.
\<close>

definition update_price :: "config \<Rightarrow> state \<Rightarrow> block \<Rightarrow> py_error + pyfloat" where
  "update_price c s blk =
     (let target = to_double (BLOCK_RESOURCE_TARGETS c);
          utilized = sum_list (map gas_used (txs blk))
      in case float_of_int utilized of
           Inl e \<Rightarrow> Inl e
         | Inr u \<Rightarrow>
             (case float_of_int (BASEFEE_MAX_CHANGE_DENOMINATOR c) of
                Inl e \<Rightarrow> Inl e
              | Inr d \<Rightarrow>
                  (case fdiv (fsub u target) (fmul target d) of
                     Inl e \<Rightarrow> Inl e
                   | Inr q \<Rightarrow>
                       (case py_float (price s) of
                          Inl e \<Rightarrow> Inl e
                        | Inr p \<Rightarrow> Inr (fmul p (fadd (Finite 1) q))))))"

text \<open>
  The second operand of that product, \<open>1 + (utilized - target) / (target * denominator)\<close>,
  on its own (lemma \<open>update_price_factor\<close> relates the two).
\<close>

definition price_factor :: "config \<Rightarrow> block \<Rightarrow> py_error + pyfloat" where
  "price_factor c blk =
     (let target = to_double (BLOCK_RESOURCE_TARGETS c);
          utilized = sum_list (map gas_used (txs blk))
      in case float_of_int utilized of
           Inl e \<Rightarrow> Inl e
         | Inr u \<Rightarrow>
             (case float_of_int (BASEFEE_MAX_CHANGE_DENOMINATOR c) of
                Inl e \<Rightarrow> Inl e
              | Inr d \<Rightarrow>
                  (case fdiv (fsub u target) (fmul target d) of
                     Inl e \<Rightarrow> Inl e
                   | Inr q \<Rightarrow> Inr (fadd (Finite 1) q))))"

definition update_excess_data_gas :: "config \<Rightarrow> state \<Rightarrow> block \<Rightarrow> int" where
  "update_excess_data_gas c s blk =
     (let target = TARGET_DATA_GAS_PER_BLOCK c;
          utilized = DATA_GAS_PER_BLOB c *
            sum_list (map (\<lambda>t. if is_BlobTransaction t then blob_hashes t else 0) (txs blk))
      in max (excess_data_gas s + (utilized - target)) 0)"

section \<open>Block building\<close>

text \<open>
  The \<open>for\<close> loop of \<open>build_block\<close> over the sorted valid demand, on its three variables
  \<open>included_transactions\<close>, \<open>utilized\<close> and \<open>utilized_data\<close>. \<open>break\<close> returns what has
  been included so far, \<open>continue\<close> goes on with the same three values.
\<close>

fun build_block_loop :: "config \<Rightarrow> tx list \<Rightarrow> tx list \<Rightarrow> int \<Rightarrow> int \<Rightarrow> tx list" where
  "build_block_loop c [] included_transactions utilized utilized_data = included_transactions"
| "build_block_loop c (t # rest) included_transactions utilized utilized_data =
     (if of_int utilized \<le> BLOCK_RESOURCE_LIMITS c then
        if is_BlobTransaction t \<and> utilized_data \<le> MAX_DATA_GAS_PER_BLOCK c then
          build_block_loop c rest (included_transactions @ [t])
            (utilized + gas_used t) (utilized_data + blob_hashes t * DATA_GAS_PER_BLOB c)
        else if is_BlobTransaction t \<and> utilized_data > MAX_DATA_GAS_PER_BLOCK c then
          build_block_loop c rest included_transactions utilized utilized_data
        else
          build_block_loop c rest (included_transactions @ [t])
            (utilized + gas_used t) utilized_data
      else included_transactions)"

text \<open>
  Python's \<open>sorted\<close> is stable and ascending in the key, as \<open>sort_key\<close> is.
\<close>

definition sorted_valid_demand :: "state \<Rightarrow> int \<Rightarrow> tx list" where
  "sorted_valid_demand s price_data =
     sort_key (\<lambda>t. - get_premium t (price s))
       (filter (\<lambda>t. is_valid t (price s) price_data) (map snd (demand s)))"

definition build_block :: "config \<Rightarrow> state \<Rightarrow> py_error + block" where
  "build_block c s =
     (case calc_price_data c (excess_data_gas s) of
        Inl e \<Rightarrow> Inl e
      | Inr price_data \<Rightarrow>
          Inr (Block (build_block_loop c (sorted_valid_demand s price_data) [] 0 0)))"

definition record_latest_block :: "block \<Rightarrow> block" where
  "record_latest_block blk = blk"

section \<open>Measures of a block and the loop without its accumulator\<close>

text \<open>
  The execution gas a list of transactions uses, as \<open>update_price\<close> sums it and as the
  loop of \<open>build_block\<close> adds it up in \<open>utilized\<close>.
\<close>

definition utilized_gas :: "tx list \<Rightarrow> int" where
  "utilized_gas ts = sum_list (map gas_used ts)"

text \<open>
  The data gas a list of transactions uses, in the words of the specification: the sum
  over its blob transactions of the blob count times the data gas of one blob (other
  transactions add nothing). It is what the loop of \<open>build_block\<close> adds up in
  \<open>utilized_data\<close>.
\<close>

definition utilized_data_gas :: "config \<Rightarrow> tx list \<Rightarrow> int" where
  "utilized_data_gas c ts =
     sum_list (map (\<lambda>t. blob_hashes t * DATA_GAS_PER_BLOB c) (filter is_BlobTransaction ts))"

text \<open>
  What the loop appends to \<open>included_transactions\<close>: the same branches as
  \<open>build_block_loop\<close>, without the accumulator. The two are related by lemma
  \<open>build_block_loop_included_from\<close>.
\<close>

fun included_from :: "config \<Rightarrow> tx list \<Rightarrow> int \<Rightarrow> int \<Rightarrow> tx list" where
  "included_from c [] utilized utilized_data = []"
| "included_from c (t # rest) utilized utilized_data =
     (if of_int utilized \<le> BLOCK_RESOURCE_LIMITS c then
        if is_BlobTransaction t \<and> utilized_data \<le> MAX_DATA_GAS_PER_BLOCK c then
          t # included_from c rest
                (utilized + gas_used t) (utilized_data + blob_hashes t * DATA_GAS_PER_BLOB c)
        else if is_BlobTransaction t \<and> utilized_data > MAX_DATA_GAS_PER_BLOCK c then
          included_from c rest utilized utilized_data
        else
          t # included_from c rest (utilized + gas_used t) utilized_data
      else [])"

section \<open>Example states\<close>

text \<open>
  A blob transaction with the highest premium whose data fee (50) is below the data
  price (89 at this excess), and an ordinary transaction.
\<close>

definition scenario_D :: state where
  "scenario_D =
     \<lparr> demand = [(''b1'', BlobTransaction ''b1'' 10 50000 1000 50 2),
                 (''t1'', Transaction ''t1'' 5 50000 200)],
       price = 100, excess_data_gas = 10000000, latest_block = Block [] \<rparr>"

text \<open>Three transactions of 20 million gas each: two of them pass the limit of 30 million.\<close>

definition heavy_demand :: state where
  "heavy_demand =
     \<lparr> demand = [(''h1'', Transaction ''h1'' 1 20000000 200),
                 (''h2'', Transaction ''h2'' 3 20000000 200),
                 (''h3'', Transaction ''h3'' 2 20000000 200)],
       price = 100, excess_data_gas = 0, latest_block = Block [] \<rparr>"

text \<open>
  Three blob transactions, the first two of three blobs each (together above the data
  limit of four blobs), and an ordinary transaction with the lowest premium.
\<close>

definition blob_demand :: state where
  "blob_demand =
     \<lparr> demand = [(''p1'', Transaction ''p1'' 1 50000 200),
                 (''q1'', BlobTransaction ''q1'' 4 50000 200 10 3),
                 (''q2'', BlobTransaction ''q2'' 3 50000 200 10 3),
                 (''q3'', BlobTransaction ''q3'' 2 50000 200 10 1)],
       price = 100, excess_data_gas = 0, latest_block = Block [] \<rparr>"



text \<open>A block whose only transaction has a gas amount of minus 225 million.\<close>

definition negative_block :: block where
  "negative_block = Block [Transaction ''n1'' 1 (- 225000000) 100]"

text \<open>A block that uses exactly 30 million gas, and a state with price 100.\<close>

definition full_block :: block where
  "full_block = Block [Transaction ''f1'' 1 10000000 200, Transaction ''f2'' 1 20000000 200]"

definition some_state :: state where
  "some_state = \<lparr> demand = [], price = 100, excess_data_gas = 0, latest_block = Block [] \<rparr>"

text \<open>A state whose price is the float 0.1, the double 3602879701896397 / 2^55.\<close>

definition tenth_state :: state where
  "tenth_state =
     \<lparr> demand = [], price = 3602879701896397 / 36028797018963968, excess_data_gas = 0,
       latest_block = Block [] \<rparr>"

section \<open>Termination of the price loop\<close>

lemma term_shrinks_pos:
  fixes a n m :: int
  assumes "0 < a" and "\<bar>n\<bar> < m"
  shows "(a * n) div m < a"
proof -
  have m: "0 < m" using assms by linarith
  have "a * n < a * m" using assms by (simp add: mult_strict_left_mono)
  hence "(a * n - a * m) div m < 0" using m by (simp add: div_neg_pos_less0)
  moreover have "(x + a * m) div m = a + x div m" for x
    using m by simp
  from this [of "a * n - a * m"] have "(a * n) div m = a + (a * n - a * m) div m"
    by simp
  ultimately show ?thesis by simp
qed

lemma term_shrinks:
  fixes a n m :: int
  assumes "0 < a" and "\<bar>n\<bar> < \<bar>m\<bar>"
  shows "(a * n) div m < a"
proof (cases "0 < m")
  case True
  then show ?thesis using assms term_shrinks_pos by simp
next
  case False
  hence "\<bar>- n\<bar> < - m" using assms by linarith
  from term_shrinks_pos [OF assms(1) this]
  show ?thesis by simp
qed

lemma divisor_grows:
  fixes d i n :: int
  assumes "d \<noteq> 0" and "\<bar>n\<bar> < i"
  shows "\<bar>n\<bar> < \<bar>d * i\<bar>"
proof -
  have "1 \<le> \<bar>d\<bar>" using assms by linarith
  moreover have "0 \<le> i" using assms by linarith
  ultimately have "1 * i \<le> \<bar>d\<bar> * i" by (rule mult_right_mono)
  moreover have "\<bar>d * i\<bar> = \<bar>d\<bar> * i" using \<open>0 \<le> i\<close> by (simp add: abs_mult)
  ultimately show ?thesis using assms by linarith
qed

text \<open>
  The loop ends on every input: \<open>i\<close> grows until it passes \<open>\<bar>numerator\<bar>\<close>, and from then
  on each term is smaller than the one before.
\<close>

termination fake_exponential_loop
proof (relation "measures [\<lambda>(n, d, i, out, acc). nat (\<bar>n\<bar> + 1 - i),
                           \<lambda>(n, d, i, out, acc). nat acc]", goal_cases)
  case 1
  show ?case by simp
next
  case (2 n d i out acc)
  show ?case
  proof (cases "i \<le> \<bar>n\<bar>")
    case True
    then show ?thesis by simp
  next
    case False
    have "(acc * n) div (d * i) < acc"
    proof (cases "d = 0")
      case True
      then show ?thesis using 2 by simp
    next
      case d: False
      have "\<bar>n\<bar> < \<bar>d * i\<bar>" using d False by (intro divisor_grows) simp_all
      then show ?thesis using 2 term_shrinks by blast
    qed
    then show ?thesis using False 2 by auto
  qed
qed

declare fake_exponential_loop.simps [simp del]

lemma fake_exponential_loop_stop:
  "acc \<le> 0 \<Longrightarrow> fake_exponential_loop n d i out acc = out"
  by (subst fake_exponential_loop.simps) simp

lemma fake_exponential_loop_step:
  "0 < acc \<Longrightarrow> fake_exponential_loop n d i out acc =
     fake_exponential_loop n d (i + 1) (out + acc) ((acc * n) div (d * i))"
  by (subst fake_exponential_loop.simps) simp

section \<open>Properties of the data-gas price\<close>

text \<open>The running sum never falls below the value it starts from: only positive terms are added.\<close>

lemma fake_exponential_loop_ge: "out \<le> fake_exponential_loop n d i out acc"
proof (induction n d i out acc rule: fake_exponential_loop.induct)
  case (1 n d i out acc)
  show ?case
  proof (cases "0 < acc")
    case True
    with 1 have "out + acc \<le> fake_exponential_loop n d i out acc"
      by (simp add: fake_exponential_loop_step)
    with True show ?thesis by linarith
  next
    case False
    then show ?thesis by (simp add: fake_exponential_loop_stop)
  qed
qed

lemma next_term_mono:
  fixes a1 a2 n1 n2 m :: int
  assumes "0 \<le> a1" "a1 \<le> a2" "0 \<le> n1" "n1 \<le> n2" "0 < m"
  shows "(a1 * n1) div m \<le> (a2 * n2) div m"
proof -
  have "a1 * n1 \<le> a2 * n2" using assms by (intro mult_mono) simp_all
  thus ?thesis using assms(5) by (rule zdiv_mono1)
qed

text \<open>
  Two runs of the loop side by side, the second with the larger numerator: term by term
  the second run is ahead, and it goes on at least as long as the first.
\<close>

lemma fake_exponential_loop_mono:
  assumes "0 \<le> n1" "n1 \<le> n2" "0 < d" "1 \<le> i" "out1 \<le> out2" "acc1 \<le> acc2"
  shows "fake_exponential_loop n1 d i out1 acc1 \<le> fake_exponential_loop n2 d i out2 acc2"
  using assms
proof (induction n2 d i out2 acc2 arbitrary: out1 acc1 rule: fake_exponential_loop.induct)
  case (1 n2 d i out2 acc2)
  show ?case
  proof (cases "0 < acc2")
    case False
    then have "acc1 \<le> 0" using "1.prems" by linarith
    with False show ?thesis using "1.prems" by (simp add: fake_exponential_loop_stop)
  next
    case True
    have di: "0 < d * i" using "1.prems" by simp
    show ?thesis
    proof (cases "0 < acc1")
      case a1: True
      have "(acc1 * n1) div (d * i) \<le> (acc2 * n2) div (d * i)"
        using a1 "1.prems" di by (intro next_term_mono) simp_all
      with "1.IH" [OF True, of "out1 + acc1" "(acc1 * n1) div (d * i)"] "1.prems"
      have "fake_exponential_loop n1 d (i + 1) (out1 + acc1) ((acc1 * n1) div (d * i))
              \<le> fake_exponential_loop n2 d (i + 1) (out2 + acc2) ((acc2 * n2) div (d * i))"
        by simp
      then show ?thesis using True a1 by (simp add: fake_exponential_loop_step)
    next
      case a1: False
      have "out1 \<le> out2 + acc2" using True "1.prems" by linarith
      also have "\<dots> \<le> fake_exponential_loop n2 d (i + 1) (out2 + acc2) ((acc2 * n2) div (d * i))"
        by (rule fake_exponential_loop_ge)
      finally show ?thesis using True a1
        by (simp add: fake_exponential_loop_step fake_exponential_loop_stop)
    qed
  qed
qed

lemma fake_exponential_mono:
  assumes "0 \<le> n1" "n1 \<le> n2" "0 < d"
  shows "\<exists>p1 p2. fake_exponential f n1 d = Inr p1 \<and> fake_exponential f n2 d = Inr p2 \<and> p1 \<le> p2"
proof -
  have "fake_exponential_loop n1 d 1 0 (f * d) \<le> fake_exponential_loop n2 d 1 0 (f * d)"
    using assms by (intro fake_exponential_loop_mono) simp_all
  hence "fake_exponential_loop n1 d 1 0 (f * d) div d
           \<le> fake_exponential_loop n2 d 1 0 (f * d) div d"
    using assms(3) by (rule zdiv_mono1)
  thus ?thesis using assms(3) by (simp add: fake_exponential_def)
qed

lemma fake_exponential_zero:
  assumes "0 < f" "0 < d"
  shows "fake_exponential f 0 d = Inr f"
proof -
  have fd: "0 < f * d" using assms by simp
  have "fake_exponential_loop 0 d 1 0 (f * d) = fake_exponential_loop 0 d 2 (f * d) 0"
    using fd by (simp add: fake_exponential_loop_step)
  also have "\<dots> = f * d" by (simp add: fake_exponential_loop_stop)
  finally show ?thesis using assms by (simp add: fake_exponential_def)
qed

text \<open>
  The price is computed (no \<open>ZeroDivisionError\<close>) whenever the update fraction is not
  zero, and it is never negative when the fraction is positive.
\<close>

lemma calc_price_data_total:
  "DATA_GASPRICE_UPDATE_FRACTION c \<noteq> 0 \<Longrightarrow> \<exists>p. calc_price_data c e = Inr p"
  by (simp add: calc_price_data_def fake_exponential_def)


text \<open>
  Claim C6. With a positive minimum price and a positive update fraction, the data price
  at an excess of 0 is the minimum price: \<open>calc_price_data(0) == MIN_DATA_GASPRICE\<close>,
  in integer arithmetic. For the notebook's constants that is the price 1.
\<close>

theorem calc_price_data_at_zero:
  assumes "0 < MIN_DATA_GASPRICE c" and "0 < DATA_GASPRICE_UPDATE_FRACTION c"
  shows "calc_price_data c 0 = Inr (MIN_DATA_GASPRICE c)"
  unfolding calc_price_data_def using assms by (rule fake_exponential_zero)

theorem calc_price_data_at_zero_witness:
  "0 < MIN_DATA_GASPRICE constants \<and> 0 < DATA_GASPRICE_UPDATE_FRACTION constants \<and>
   calc_price_data constants 0 = Inr 1"
proof -
  have a: "0 < MIN_DATA_GASPRICE constants" by (simp add: constants_def)
  have b: "0 < DATA_GASPRICE_UPDATE_FRACTION constants" by (simp add: constants_def)
  from calc_price_data_at_zero [OF a b] a b show ?thesis by (simp add: constants_def)
qed

text \<open>
  Claim C7. The data price is monotone in the excess: for positive constants and
  non-negative integers \<open>e1 \<le> e2\<close>, both prices are computed and
  \<open>calc_price_data(e1) \<le> calc_price_data(e2)\<close>; and \<open>fake_exponential\<close> itself is
  monotone in its numerator, for every factor and every positive denominator.
\<close>

theorem calc_price_data_mono:
  assumes "0 < MIN_DATA_GASPRICE c" and "0 < DATA_GASPRICE_UPDATE_FRACTION c"
    and "0 < d" and "0 \<le> e1" and "e1 \<le> e2"
  shows "(\<exists>p1 p2. calc_price_data c e1 = Inr p1 \<and> calc_price_data c e2 = Inr p2 \<and> p1 \<le> p2)
       \<and> (\<exists>q1 q2. fake_exponential f e1 d = Inr q1 \<and> fake_exponential f e2 d = Inr q2 \<and>
                   q1 \<le> q2)"
proof
  show "\<exists>p1 p2. calc_price_data c e1 = Inr p1 \<and> calc_price_data c e2 = Inr p2 \<and> p1 \<le> p2"
    unfolding calc_price_data_def using assms(4,5,2) by (rule fake_exponential_mono)
  show "\<exists>q1 q2. fake_exponential f e1 d = Inr q1 \<and> fake_exponential f e2 d = Inr q2 \<and> q1 \<le> q2"
    using assms(4,5,3) by (rule fake_exponential_mono)
qed

text \<open>
  With the notebook's constants the price is 2 at an excess of 2225652 and 89 at an
  excess of 10000000.
\<close>

theorem calc_price_data_mono_witness:
  "0 < MIN_DATA_GASPRICE constants \<and> 0 < DATA_GASPRICE_UPDATE_FRACTION constants \<and>
   (0::int) < 7 \<and> (0::int) \<le> 2225652 \<and> (2225652::int) \<le> 10000000 \<and>
   calc_price_data constants 2225652 = Inr 2 \<and>
   calc_price_data constants 10000000 = Inr 89 \<and>
   (\<exists>p1 p2. calc_price_data constants 2225652 = Inr p1 \<and>
            calc_price_data constants 10000000 = Inr p2 \<and> p1 \<le> p2) \<and>
   (\<exists>q1 q2. fake_exponential 3 2225652 7 = Inr q1 \<and> fake_exponential 3 10000000 7 = Inr q2 \<and>
            q1 \<le> q2)"
proof -
  have a: "0 < MIN_DATA_GASPRICE constants" by (simp add: constants_def)
  have b: "0 < DATA_GASPRICE_UPDATE_FRACTION constants" by (simp add: constants_def)
  have c: "(0::int) < 7" by simp
  have d: "(0::int) \<le> 2225652" by simp
  have e: "(2225652::int) \<le> 10000000" by simp
  have v1: "calc_price_data constants 2225652 = Inr 2"
    by (simp add: calc_price_data_def fake_exponential_def constants_def
        fake_exponential_loop.simps)
  have v2: "calc_price_data constants 10000000 = Inr 89"
    by (simp add: calc_price_data_def fake_exponential_def constants_def
        fake_exponential_loop.simps)
  from calc_price_data_mono [OF a b c d e, of 3] a b v1 v2 show ?thesis by simp
qed

section \<open>Properties of rounding to double\<close>

lemma round_half_even_cases:
  "round_half_even y = \<lfloor>y\<rfloor> \<or> round_half_even y = \<lfloor>y\<rfloor> + 1"
  by (simp add: round_half_even_def Let_def)

lemma round_half_even_of_int [simp]: "round_half_even (of_int n) = n"
  by (simp add: round_half_even_def)

lemma round_half_even_mono:
  assumes "x \<le> y"
  shows "round_half_even x \<le> round_half_even y"
proof (cases "\<lfloor>x\<rfloor> = \<lfloor>y\<rfloor>")
  case True
  have "x - of_int \<lfloor>x\<rfloor> \<le> y - of_int \<lfloor>y\<rfloor>" using assms True by simp
  then show ?thesis using True by (auto simp: round_half_even_def Let_def)
next
  case False
  have "\<lfloor>x\<rfloor> \<le> \<lfloor>y\<rfloor>" using assms by (rule floor_mono)
  with False have "\<lfloor>x\<rfloor> + 1 \<le> \<lfloor>y\<rfloor>" by simp
  moreover have "round_half_even x \<le> \<lfloor>x\<rfloor> + 1"
    using round_half_even_cases [of x] by auto
  moreover have "\<lfloor>y\<rfloor> \<le> round_half_even y"
    using round_half_even_cases [of y] by auto
  ultimately show ?thesis by linarith
qed

lemma round_half_even_nonneg: "0 \<le> y \<Longrightarrow> 0 \<le> round_half_even y"
  using round_half_even_mono [of 0 y] round_half_even_of_int [of 0] by simp

lemma round_half_even_pos_iff: "0 < round_half_even y \<longleftrightarrow> 1 / 2 < y"
proof (cases "1 \<le> y")
  case True
  hence "1 \<le> \<lfloor>y\<rfloor>" by (simp add: le_floor_iff)
  with round_half_even_cases [of y] True show ?thesis by auto
next
  case False
  show ?thesis
  proof (cases "0 \<le> y")
    case True
    with False have "\<lfloor>y\<rfloor> = 0" by (simp add: floor_eq_iff)
    then show ?thesis by (auto simp: round_half_even_def Let_def)
  next
    case neg: False
    hence "\<lfloor>y\<rfloor> < 0" by (simp add: floor_less_iff)
    with round_half_even_cases [of y] neg show ?thesis by auto
  qed
qed

lemma round_half_even_minus: "round_half_even (- y) = - round_half_even y"
proof (cases "y = of_int \<lfloor>y\<rfloor>")
  case True
  then obtain n where "y = of_int n" ..
  hence "- y = of_int (- n)" by simp
  with \<open>y = of_int n\<close> show ?thesis by (simp only: round_half_even_of_int)
next
  case False
  let ?n = "\<lfloor>y\<rfloor>"
  have lt: "of_int ?n < y" using False of_int_floor_le [of y] by (metis order_le_less)
  have "y < of_int ?n + 1" by linarith
  hence fl: "\<lfloor>- y\<rfloor> = - ?n - 1" using lt by (simp add: floor_eq_iff)
  have r: "- y - of_int (- ?n - 1) = 1 - (y - of_int ?n)" by simp
  show ?thesis
    unfolding round_half_even_def Let_def fl r by auto
qed

text \<open>Rounding a scaled value against a grid point \<open>B\<close> (an integer multiple of \<open>q\<close>).\<close>

lemma scaled_round_le:
  fixes q :: rat
  assumes "x \<le> B" and "B / q = of_int N" and "0 < q"
  shows "of_int (round_half_even (x / q)) * q \<le> B"
proof -
  have B: "B = of_int N * q" using assms(2,3) by (simp add: field_simps)
  have "x / q \<le> B / q" using assms(1,3) by (intro divide_right_mono) simp_all
  hence "round_half_even (x / q) \<le> round_half_even (B / q)" by (rule round_half_even_mono)
  hence "round_half_even (x / q) \<le> N" by (simp only: assms(2) round_half_even_of_int)
  hence "(of_int (round_half_even (x / q)) :: rat) \<le> of_int N" by (simp only: of_int_le_iff)
  hence "of_int (round_half_even (x / q)) * q \<le> of_int N * q"
    using assms(3) by (intro mult_right_mono) simp_all
  thus ?thesis by (simp only: B)
qed

lemma scaled_round_ge:
  fixes q :: rat
  assumes "B \<le> y" and "B / q = of_int N" and "0 < q"
  shows "B \<le> of_int (round_half_even (y / q)) * q"
proof -
  have B: "B = of_int N * q" using assms(2,3) by (simp add: field_simps)
  have "B / q \<le> y / q" using assms(1,3) by (intro divide_right_mono) simp_all
  hence "round_half_even (B / q) \<le> round_half_even (y / q)" by (rule round_half_even_mono)
  hence "N \<le> round_half_even (y / q)" by (simp only: assms(2) round_half_even_of_int)
  hence "(of_int N :: rat) \<le> of_int (round_half_even (y / q))" by (simp only: of_int_le_iff)
  hence "of_int N * q \<le> of_int (round_half_even (y / q)) * q"
    using assms(3) by (intro mult_right_mono) simp_all
  thus ?thesis by (simp only: B)
qed

lemma two_powi_less_imp:
  assumes "(2::rat) powi a < 2 powi b"
  shows "a < b"
proof (rule ccontr)
  assume "\<not> a < b"
  hence "b \<le> a" by simp
  hence "(2::rat) powi b \<le> 2 powi a" by (rule power_int_increasing) simp
  with assms show False by simp
qed

lemma two_powi_of_int: "0 \<le> k \<Longrightarrow> (2::rat) powi k = of_int (2 ^ nat k)"
  by (simp add: power_int_nonneg_exp)

text \<open>\<open>exponent_of\<close> is the binary exponent.\<close>

lemma exponent_of_bounds:
  assumes "x \<noteq> 0"
  shows "2 powi exponent_of x \<le> \<bar>x\<bar>" and "\<bar>x\<bar> < 2 powi (exponent_of x + 1)"
proof -
  let ?a = "\<bar>x\<bar>"
  have apos: "0 < ?a" using assms by simp
  have "2 powi exponent_of x \<le> ?a \<and> ?a < 2 powi (exponent_of x + 1)"
  proof (cases "1 \<le> ?a")
    case True
    let ?n = "\<lfloor>?a\<rfloor>"
    have n: "0 < ?n" using True by (simp add: le_floor_iff)
    from bitlen_bounds [OF n] have lo: "2 ^ nat (bitlen ?n - 1) \<le> ?n"
      and hi: "?n < 2 ^ nat (bitlen ?n)" by simp_all
    have b1: "1 \<le> bitlen ?n" using n by (simp add: bitlen_alt_def)
    have e: "exponent_of x = bitlen ?n - 1" using True by (simp add: exponent_of_def)
    have "(2::rat) powi (bitlen ?n - 1) = of_int (2 ^ nat (bitlen ?n - 1))"
      using b1 by (simp add: power_int_nonneg_exp)
    also have "\<dots> \<le> of_int ?n" using lo by (simp only: of_int_le_iff)
    also have "\<dots> \<le> ?a" by simp
    finally have A: "2 powi exponent_of x \<le> ?a" by (simp add: e)
    have "?n + 1 \<le> 2 ^ nat (bitlen ?n)" using hi by simp
    hence "(of_int (?n + 1) :: rat) \<le> of_int (2 ^ nat (bitlen ?n))" by (simp only: of_int_le_iff)
    moreover have "?a < of_int (?n + 1)" by linarith
    moreover have "(2::rat) powi (bitlen ?n) = of_int (2 ^ nat (bitlen ?n))"
      using b1 by (simp add: power_int_nonneg_exp)
    ultimately have "?a < 2 powi (exponent_of x + 1)" by (simp add: e)
    with A show ?thesis ..
  next
    case False
    let ?y = "1 / ?a"
    let ?n = "\<lceil>?y\<rceil>"
    have y1: "1 < ?y" using False apos by simp
    hence n2: "2 \<le> ?n" by (simp add: le_ceiling_iff)
    hence m: "0 < ?n - 1" by simp
    let ?l = "bitlen (?n - 1)"
    from bitlen_bounds [OF m] have lo: "2 ^ nat (?l - 1) \<le> ?n - 1"
      and hi: "?n - 1 < 2 ^ nat ?l" by simp_all
    have l1: "1 \<le> ?l" using m by (simp add: bitlen_alt_def)
    have e: "exponent_of x = - ?l" using False by (simp add: exponent_of_def)
    have pl: "(2::rat) powi ?l = of_int (2 ^ nat ?l)" using l1 by (simp add: power_int_nonneg_exp)
    have pl1: "(2::rat) powi (?l - 1) = of_int (2 ^ nat (?l - 1))"
      using l1 by (simp add: power_int_nonneg_exp)
    have "?n \<le> 2 ^ nat ?l" using hi by simp
    hence "(of_int ?n :: rat) \<le> of_int (2 ^ nat ?l)" by (simp only: of_int_le_iff)
    hence "(of_int ?n :: rat) \<le> 2 powi ?l" by (simp only: pl)
    moreover have "?y \<le> of_int ?n" by (rule le_of_int_ceiling)
    ultimately have "?y \<le> 2 powi ?l" by (rule order_trans [rotated])
    hence "1 / (2 powi ?l) \<le> ?a"
      using apos by (simp add: field_simps)
    hence A: "2 powi exponent_of x \<le> ?a" by (simp add: e power_int_minus_divide)
    have "(of_int (2 ^ nat (?l - 1)) :: rat) \<le> of_int (?n - 1)"
      using lo by (simp only: of_int_le_iff)
    hence "(2::rat) powi (?l - 1) \<le> of_int (?n - 1)" by (simp only: pl1)
    moreover have "of_int (?n - 1) < ?y" by linarith
    ultimately have "2 powi (?l - 1) < ?y" by (rule le_less_trans)
    hence "?a < 1 / (2 powi (?l - 1))" using apos
      by (simp add: field_simps)
    hence "?a < 2 powi (- (?l - 1))" by (simp only: power_int_minus_divide)
    moreover have "exponent_of x + 1 = - (?l - 1)" by (simp add: e)
    ultimately have "?a < 2 powi (exponent_of x + 1)" by (simp only:)
    with A show ?thesis ..
  qed
  thus "2 powi exponent_of x \<le> \<bar>x\<bar>" and "\<bar>x\<bar> < 2 powi (exponent_of x + 1)" by simp_all
qed

lemma exponent_of_minus [simp]: "exponent_of (- x) = exponent_of x"
  by (simp add: exponent_of_def)

lemma exponent_of_mono:
  assumes "0 < x" "x \<le> y"
  shows "exponent_of x \<le> exponent_of y"
proof -
  have "2 powi exponent_of x \<le> \<bar>x\<bar>" using assms by (intro exponent_of_bounds) simp
  also have "\<dots> \<le> \<bar>y\<bar>" using assms by simp
  also have "\<dots> < 2 powi (exponent_of y + 1)" using assms by (intro exponent_of_bounds) simp
  finally have "exponent_of x < exponent_of y + 1" by (rule two_powi_less_imp)
  thus ?thesis by simp
qed

lemma quantum_pos [simp]: "0 < quantum x"
  by (simp add: quantum_def)

lemma quantum_nonneg [simp]: "0 \<le> quantum x"
  by (rule less_imp_le) (rule quantum_pos)

lemma quantum_not_neg [simp]: "\<not> quantum x < 0"
  using quantum_nonneg [of x] by (simp only: not_less)

lemma quantum_nonzero [simp]: "quantum x \<noteq> 0"
  using quantum_pos [of x] by (simp only: less_le) simp

lemma quantum_minus [simp]: "quantum (- x) = quantum x"
  by (simp add: quantum_def)

lemmas round_double_eq = round_double_def

lemma round_double_zero [simp]: "round_double 0 = 0"
  by (simp add: round_double_eq)

lemma round_double_minus: "round_double (- x) = - round_double x"
  by (simp add: round_double_eq round_half_even_minus)

lemma round_double_nonneg:
  assumes "0 \<le> x"
  shows "0 \<le> round_double x"
proof (cases "x = 0")
  case True
  then show ?thesis by simp
next
  case False
  have "0 \<le> x / quantum x" using assms by (intro divide_nonneg_pos quantum_pos)
  hence "0 \<le> round_half_even (x / quantum x)" by (rule round_half_even_nonneg)
  thus ?thesis using False by (simp add: round_double_eq)
qed

text \<open>
  Rounding is monotone. Within one binade it is the monotonicity of \<open>round_half_even\<close>;
  across binades the power of two between the two arguments is a point of both grids.
\<close>

lemma round_double_mono_pos:
  assumes "0 < x" "x \<le> y"
  shows "round_double x \<le> round_double y"
proof -
  let ?ex = "max (exponent_of x) (- 1022)"
  let ?ey = "max (exponent_of y) (- 1022)"
  have y: "0 < y" using assms by simp
  have em: "exponent_of x \<le> exponent_of y" using assms by (rule exponent_of_mono)
  have le: "?ex \<le> ?ey" using em by linarith
  have rx: "round_double x = of_int (round_half_even (x / quantum x)) * quantum x"
    using assms by (simp add: round_double_eq)
  have ry: "round_double y = of_int (round_half_even (y / quantum y)) * quantum y"
    using y by (simp add: round_double_eq)
  show ?thesis
  proof (cases "?ex = ?ey")
    case True
    hence q: "quantum x = quantum y" by (simp add: quantum_def)
    have "x / quantum y \<le> y / quantum y" using assms by (intro divide_right_mono quantum_nonneg)
    hence "round_half_even (x / quantum y) \<le> round_half_even (y / quantum y)"
      by (rule round_half_even_mono)
    hence "(of_int (round_half_even (x / quantum y)) :: rat)
             \<le> of_int (round_half_even (y / quantum y))"
      by simp
    hence "of_int (round_half_even (x / quantum y)) * quantum y
            \<le> of_int (round_half_even (y / quantum y)) * quantum y"
      by (rule mult_right_mono) simp
    thus ?thesis by (simp add: rx ry q)
  next
    case False
    with le have lt: "?ex < ?ey" by linarith
    hence ey: "?ey = exponent_of y" by linarith
    let ?B = "(2::rat) powi ?ey"
    have By: "?B \<le> y" using exponent_of_bounds(1) [of y] y ey by simp
    have "x < 2 powi (exponent_of x + 1)" using exponent_of_bounds(2) [of x] assms by simp
    also have "\<dots> \<le> ?B" using lt by (intro power_int_increasing) simp_all
    finally have xB: "x < ?B" .
    have qy: "?B / quantum y = of_int (2 ^ 52)"
      by (simp add: quantum_def power_int_diff)
    have "?B / quantum x = 2 powi (?ey - ?ex + 52)"
      by (simp add: quantum_def power_int_diff power_int_add)
    also have "\<dots> = of_int (2 ^ nat (?ey - ?ex + 52))"
      using lt by (intro two_powi_of_int) simp
    finally have qx: "?B / quantum x = of_int (2 ^ nat (?ey - ?ex + 52))" .
    have "of_int (round_half_even (x / quantum x)) * quantum x \<le> ?B"
      using less_imp_le [OF xB] qx quantum_pos by (rule scaled_round_le)
    hence A: "round_double x \<le> ?B" by (simp only: rx)
    have "?B \<le> of_int (round_half_even (y / quantum y)) * quantum y"
      using By qy quantum_pos by (rule scaled_round_ge)
    hence "?B \<le> round_double y" by (simp only: ry)
    with A show ?thesis by simp
  qed
qed

lemma round_double_mono:
  assumes "x \<le> y"
  shows "round_double x \<le> round_double y"
proof (cases "0 < x")
  case True
  then show ?thesis using assms by (rule round_double_mono_pos)
next
  case x: False
  show ?thesis
  proof (cases "0 \<le> y")
    case True
    have "round_double x = - round_double (- x)" by (simp add: round_double_minus)
    moreover have "0 \<le> round_double (- x)" using x by (intro round_double_nonneg) simp
    moreover have "0 \<le> round_double y" using True by (rule round_double_nonneg)
    ultimately show ?thesis by simp
  next
    case False
    hence "0 < - y" "- y \<le> - x" using assms by simp_all
    hence "round_double (- y) \<le> round_double (- x)" by (rule round_double_mono_pos)
    thus ?thesis by (simp add: round_double_minus)
  qed
qed

text \<open>
  A value rounds to a positive double exactly when it is above \<open>2^-1075\<close>, half the
  smallest double; \<open>2^-1075\<close> itself is a tie and goes to the even neighbour, zero.
\<close>

lemma round_double_pos_iff: "0 < round_double x \<longleftrightarrow> 1 / 2 ^ 1075 < x"
proof (cases "0 < x")
  case False
  hence "round_double x \<le> 0"
    using round_double_nonneg [of "- x"] by (simp add: round_double_minus)
  moreover have "\<not> 1 / 2 ^ 1075 < x"
  proof
    assume "1 / 2 ^ 1075 < x"
    moreover have "(0::rat) < 1 / 2 ^ 1075" by simp
    ultimately have "0 < x" by (rule less_trans [rotated])
    with False show False ..
  qed
  ultimately show ?thesis by simp
next
  case True
  hence rx: "round_double x = of_int (round_half_even (x / quantum x)) * quantum x"
    by (simp add: round_double_eq)
  have pos: "0 < round_double x \<longleftrightarrow> 1 / 2 < x / quantum x"
    unfolding rx by (simp add: zero_less_mult_iff round_half_even_pos_iff)
  show ?thesis
  proof (cases "exponent_of x \<le> - 1022")
    case sub: True
    hence q: "quantum x = 1 / 2 ^ 1074"
      by (simp add: quantum_def max_def power_int_minus_divide)
    have "1 / 2 < x / quantum x \<longleftrightarrow> 1 / 2 ^ 1075 < x"
      unfolding q by (simp add: field_simps)
    with pos show ?thesis by simp
  next
    case norm: False
    hence m: "max (exponent_of x) (- 1022) = exponent_of x" by simp
    have lo: "2 powi exponent_of x \<le> x" using exponent_of_bounds(1) [of x] True by simp
    have "(1::rat) / 2 < 2 ^ 52" by simp
    also have "\<dots> = 2 powi exponent_of x / quantum x"
      by (simp add: quantum_def m power_int_diff)
    also have "\<dots> \<le> x / quantum x" using lo by (intro divide_right_mono quantum_nonneg)
    finally have A: "1 / 2 < x / quantum x" .
    have "(1::rat) / 2 ^ 1075 < 2 powi (- 1022)" by (simp add: power_int_minus_divide)
    also have "\<dots> \<le> 2 powi exponent_of x" using norm by (intro power_int_increasing) simp_all
    also have "\<dots> \<le> x" by (rule lo)
    finally have "1 / 2 ^ 1075 < x" .
    with A pos show ?thesis by simp
  qed
qed

text \<open>A positive double is at least the smallest one, \<open>2^-1074\<close>.\<close>

lemma round_double_pos_ge:
  assumes "0 < round_double x"
  shows "1 / 2 ^ 1074 \<le> round_double x"
proof -
  have x: "x \<noteq> 0" using assms by auto
  hence rx: "round_double x = of_int (round_half_even (x / quantum x)) * quantum x"
    by (simp add: round_double_eq)
  have "0 < round_half_even (x / quantum x)"
    using assms unfolding rx by (simp add: zero_less_mult_iff)
  hence "(1::rat) \<le> of_int (round_half_even (x / quantum x))" by simp
  hence "1 * quantum x \<le> of_int (round_half_even (x / quantum x)) * quantum x"
    by (rule mult_right_mono) simp
  hence m: "quantum x \<le> of_int (round_half_even (x / quantum x)) * quantum x"
    by (simp only: mult_1)
  have "(2::rat) powi (- 1074) \<le> quantum x"
    unfolding quantum_def by (intro power_int_increasing) simp_all
  moreover have "(2::rat) powi (- 1074) = 1 / 2 ^ 1074" by (simp add: power_int_minus_divide)
  ultimately have "1 / 2 ^ 1074 \<le> quantum x" by (simp only:)
  hence "1 / 2 ^ 1074 \<le> of_int (round_half_even (x / quantum x)) * quantum x"
    using m by (rule order_trans)
  thus ?thesis by (simp only: rx)
qed

section \<open>Properties of the float operations\<close>

lemma to_double_cases:
  "to_double x = PosInf \<and> of_int (2 ^ 1024) \<le> round_double x
   \<or> to_double x = NegInf \<and> round_double x \<le> - of_int (2 ^ 1024)
   \<or> to_double x = Finite (round_double x)"
  by (simp add: to_double_def Let_def)

lemma fpos_to_double: "fpos (to_double x) \<longleftrightarrow> 1 / 2 ^ 1075 < x"
proof -
  have "fpos (to_double x) \<longleftrightarrow> 0 < round_double x"
    by (auto simp: to_double_def Let_def)
  thus ?thesis by (simp add: round_double_pos_iff)
qed

lemma fge_to_double:
  assumes "c \<le> x" and "- of_int (2 ^ 1024) < round_double c"
  shows "fge (to_double x) (round_double c)"
proof -
  have "round_double c \<le> round_double x" using assms(1) by (rule round_double_mono)
  with assms(2) show ?thesis by (auto simp: to_double_def Let_def)
qed

lemma fle_to_double:
  assumes "x \<le> c" and "round_double c < of_int (2 ^ 1024)"
  shows "fle (to_double x) (round_double c)"
proof -
  have "round_double x \<le> round_double c" using assms(1) by (rule round_double_mono)
  with assms(2) show ?thesis by (auto simp: to_double_def Let_def)
qed

text \<open>The three steps of the factor, each monotone: bounds go through the rounding.\<close>

lemma fge_sub:
  assumes "c \<le> a" and "- of_int (2 ^ 1024) < round_double (c - t)"
  shows "fge (fsub (Finite a) (Finite t)) (round_double (c - t))"
proof -
  have "c - t \<le> a + - t" using assms(1) by simp
  from fge_to_double [OF this assms(2)] show ?thesis by (simp add: fsub_def)
qed

lemma fle_sub:
  assumes "a \<le> c" and "round_double (c - t) < of_int (2 ^ 1024)"
  shows "fle (fsub (Finite a) (Finite t)) (round_double (c - t))"
proof -
  have "a + - t \<le> c - t" using assms(1) by simp
  from fle_to_double [OF this assms(2)] show ?thesis by (simp add: fsub_def)
qed

lemma fge_div:
  assumes "fge a c" and "0 < b" and "- of_int (2 ^ 1024) < round_double (c / b)"
  shows "\<exists>q. fdiv a (Finite b) = Inr q \<and> fge q (round_double (c / b))"
proof (cases a)
  case (Finite a')
  with assms(1) have "c / b \<le> a' / b" using assms(2) by (simp add: divide_right_mono)
  from fge_to_double [OF this assms(3)] Finite assms(2) show ?thesis by simp
qed (use assms in simp_all)

lemma fle_div:
  assumes "fle a c" and "0 < b" and "round_double (c / b) < of_int (2 ^ 1024)"
  shows "\<exists>q. fdiv a (Finite b) = Inr q \<and> fle q (round_double (c / b))"
proof (cases a)
  case (Finite a')
  with assms(1) have "a' / b \<le> c / b" using assms(2) by (simp add: divide_right_mono)
  from fle_to_double [OF this assms(3)] Finite assms(2) show ?thesis by simp
qed (use assms in simp_all)

lemma fge_add:
  assumes "fge q c" and "- of_int (2 ^ 1024) < round_double (1 + c)"
  shows "fge (fadd (Finite 1) q) (round_double (1 + c))"
proof (cases q)
  case (Finite q')
  with assms(1) have "1 + c \<le> 1 + q'" by simp
  from fge_to_double [OF this assms(2)] Finite show ?thesis by simp
qed (use assms in simp_all)

lemma fle_add:
  assumes "fle q c" and "round_double (1 + c) < of_int (2 ^ 1024)"
  shows "fle (fadd (Finite 1) q) (round_double (1 + c))"
proof (cases q)
  case (Finite q')
  with assms(1) have "1 + q' \<le> 1 + c" by simp
  from fle_to_double [OF this assms(2)] Finite show ?thesis by simp
qed (use assms in simp_all)

text \<open>The sign of a product with a positive double \<open>p\<close>.\<close>

lemma fpos_fmul:
  assumes "0 < p"
  shows "fpos (fmul (Finite p) f) \<longleftrightarrow> f = PosInf \<or> (\<exists>r. f = Finite r \<and> 1 / 2 ^ 1075 < p * r)"
  using assms by (cases f) (simp_all add: fpos_to_double)

lemma update_price_factor:
  "update_price c s blk =
     (case price_factor c blk of
        Inl e \<Rightarrow> Inl e
      | Inr f \<Rightarrow> (case py_float (price s) of Inl e \<Rightarrow> Inl e | Inr p \<Rightarrow> Inr (fmul p f)))"
  by (simp add: update_price_def price_factor_def Let_def split: sum.splits)

section \<open>The factor of the price update with the notebook's constants\<close>

text \<open>Doubles that the proofs below meet, each rounded by evaluation.\<close>

lemma double_values:
  "round_double 8 = 8"
  "round_double 100 = 100"
  "round_double 15000000 = 15000000"
  "round_double 30000000 = 30000000"
  "round_double 120000000 = 120000000"
  "round_double (1 / 8) = 1 / 8"
  "round_double (9 / 8) = 9 / 8"
  "round_double (7 / 8) = 7 / 8"
  "round_double (- 2) = - 2"
  "round_double (- 1) = - 1"
  "round_double (- 100) = - 100"
  "round_double (175 / 2) = 175 / 2"
  "round_double (- (1 / 8)) = - (1 / 8)"
  "round_double (- 15000000) = - 15000000"
  "round_double (- 104999999) = - 104999999"
  "round_double (- 105000000) = - 105000000"
  "round_double (- 119999999) = - 119999999"
  "round_double (- 120000000) = - 120000000"
  "round_double (- 225000000) = - 225000000"
  "round_double (- 240000000) = - 240000000"
  "round_double (3602879701896397 / 36028797018963968) = 3602879701896397 / 36028797018963968"
  "round_double (32425917317067573 / 288230376151711744)
     = 8106479329266893 / 72057594037927936"
  by code_simp+

lemma price_factor_constants:
  assumes "float_of_int (utilized_gas (txs blk)) = Inr u"
  shows "price_factor constants blk =
           (case fdiv (fsub u (Finite 15000000)) (Finite 120000000) of
              Inl e \<Rightarrow> Inl e
            | Inr q \<Rightarrow> Inr (fadd (Finite 1) q))"
  using assms
  by (simp add: price_factor_def constants_def utilized_gas_def to_double_def float_of_int_def
      py_float_def double_values Let_def)

text \<open>
  A lower bound \<open>c0\<close> on the converted total gas goes through the three operations, and
  so does an upper bound; \<open>c1\<close>, \<open>c2\<close> and \<open>c3\<close> are the rounded intermediate bounds.
\<close>

lemma factor_ge:
  assumes "c0 \<le> r0"
    and "round_double (c0 - 15000000) = c1 \<and> - of_int (2 ^ 1024) < c1 \<and>
         round_double (c1 / 120000000) = c2 \<and> - of_int (2 ^ 1024) < c2 \<and>
         round_double (1 + c2) = c3 \<and> - of_int (2 ^ 1024) < c3"
  shows "\<exists>q. fdiv (fsub (Finite r0) (Finite 15000000)) (Finite 120000000) = Inr q \<and>
             fge (fadd (Finite 1) q) c3"
proof -
  from assms(2) have c1: "round_double (c0 - 15000000) = c1" "- of_int (2 ^ 1024) < c1"
    and c2: "round_double (c1 / 120000000) = c2" "- of_int (2 ^ 1024) < c2"
    and c3: "round_double (1 + c2) = c3" "- of_int (2 ^ 1024) < c3" by simp_all
  have "fge (fsub (Finite r0) (Finite 15000000)) (round_double (c0 - 15000000))"
    using assms(1) c1 by (intro fge_sub) simp_all
  hence a: "fge (fsub (Finite r0) (Finite 15000000)) c1" by (simp only: c1)
  have "\<exists>q. fdiv (fsub (Finite r0) (Finite 15000000)) (Finite 120000000) = Inr q \<and>
            fge q (round_double (c1 / 120000000))"
    using a c2 by (intro fge_div) simp_all
  then obtain q where q: "fdiv (fsub (Finite r0) (Finite 15000000)) (Finite 120000000) = Inr q"
    and "fge q c2" by (auto simp only: c2)
  hence "fge (fadd (Finite 1) q) (round_double (1 + c2))"
    using c3 by (intro fge_add) simp_all
  with q show ?thesis by (auto simp only: c3)
qed

lemma factor_le:
  assumes "r0 \<le> c0"
    and "round_double (c0 - 15000000) = c1 \<and> c1 < of_int (2 ^ 1024) \<and>
         round_double (c1 / 120000000) = c2 \<and> c2 < of_int (2 ^ 1024) \<and>
         round_double (1 + c2) = c3 \<and> c3 < of_int (2 ^ 1024)"
  shows "\<exists>q. fdiv (fsub (Finite r0) (Finite 15000000)) (Finite 120000000) = Inr q \<and>
             fle (fadd (Finite 1) q) c3"
proof -
  from assms(2) have c1: "round_double (c0 - 15000000) = c1" "c1 < of_int (2 ^ 1024)"
    and c2: "round_double (c1 / 120000000) = c2" "c2 < of_int (2 ^ 1024)"
    and c3: "round_double (1 + c2) = c3" "c3 < of_int (2 ^ 1024)" by simp_all
  have "fle (fsub (Finite r0) (Finite 15000000)) (round_double (c0 - 15000000))"
    using assms(1) c1 by (intro fle_sub) simp_all
  hence a: "fle (fsub (Finite r0) (Finite 15000000)) c1" by (simp only: c1)
  have "\<exists>q. fdiv (fsub (Finite r0) (Finite 15000000)) (Finite 120000000) = Inr q \<and>
            fle q (round_double (c1 / 120000000))"
    using a c2 by (intro fle_div) simp_all
  then obtain q where q: "fdiv (fsub (Finite r0) (Finite 15000000)) (Finite 120000000) = Inr q"
    and "fle q c2" by (auto simp only: c2)
  hence "fle (fadd (Finite 1) q) (round_double (1 + c2))"
    using c3 by (intro fle_add) simp_all
  with q show ?thesis by (auto simp only: c3)
qed

lemma factor_from_0:
  "round_double (0 - 15000000) = - 15000000 \<and> - of_int (2 ^ 1024) < (- 15000000 :: rat) \<and>
   round_double (- 15000000 / 120000000) = - (1 / 8) \<and> - of_int (2 ^ 1024) < (- (1 / 8) :: rat) \<and>
   round_double (1 + - (1 / 8)) = 0.875 \<and> - of_int (2 ^ 1024) < (0.875 :: rat)"
proof -
  have "round_double (0 - 15000000) = - 15000000" by code_simp
  moreover have "round_double (- 15000000 / 120000000) = - (1 / 8)" by code_simp
  moreover have "round_double (1 + - (1 / 8)) = 0.875" by code_simp
  ultimately show ?thesis by simp
qed

lemma factor_from_threshold:
  "round_double (- 104999999 - 15000000) = - 119999999 \<and>
   - of_int (2 ^ 1024) < (- 119999999 :: rat) \<and>
   round_double (- 119999999 / 120000000) = - (4503599589840499 / 4503599627370496) \<and>
   - of_int (2 ^ 1024) < (- (4503599589840499 / 4503599627370496) :: rat) \<and>
   round_double (1 + - (4503599589840499 / 4503599627370496)) = 37529997 / 4503599627370496 \<and>
   - of_int (2 ^ 1024) < (37529997 / 4503599627370496 :: rat)"
proof -
  have "round_double (- 104999999 - 15000000) = - 119999999" by code_simp
  moreover have "round_double (- 119999999 / 120000000)
                   = - (4503599589840499 / 4503599627370496)" by code_simp
  moreover have "round_double (1 + - (4503599589840499 / 4503599627370496))
                   = 37529997 / 4503599627370496" by code_simp
  ultimately show ?thesis by simp
qed

lemma factor_from_below:
  "round_double (- 105000000 - 15000000) = - 120000000 \<and>
   (- 120000000 :: rat) < of_int (2 ^ 1024) \<and>
   round_double (- 120000000 / 120000000) = - 1 \<and> (- 1 :: rat) < of_int (2 ^ 1024) \<and>
   round_double (1 + - 1) = 0 \<and> (0 :: rat) < of_int (2 ^ 1024)"
proof -
  have "round_double (- 105000000 - 15000000) = - 120000000" by code_simp
  moreover have "round_double (- 120000000 / 120000000) = - 1" by code_simp
  ultimately show ?thesis by simp
qed

lemma update_empty_block:
  "update_price constants some_state (Block []) = Inr (Finite 87.5)"
  by (simp add: update_price_def constants_def some_state_def to_double_def float_of_int_def
      py_float_def fsub_def double_values Let_def)

lemma update_negative_block:
  "update_price constants some_state negative_block = Inr (Finite (- 100))"
  by (simp add: update_price_def constants_def some_state_def negative_block_def to_double_def
      float_of_int_def py_float_def fsub_def double_values Let_def)

section \<open>Properties of the two update rules\<close>

lemma utilized_gas_simps [simp]:
  "utilized_gas [] = 0"
  "utilized_gas (t # ts) = gas_used t + utilized_gas ts"
  "utilized_gas (xs @ ys) = utilized_gas xs + utilized_gas ys"
  by (simp_all add: utilized_gas_def)

lemma utilized_data_gas_simps [simp]:
  "utilized_data_gas c [] = 0"
  "utilized_data_gas c (t # ts) =
     (if is_BlobTransaction t then blob_hashes t * DATA_GAS_PER_BLOB c else 0)
       + utilized_data_gas c ts"
  "utilized_data_gas c (xs @ ys) = utilized_data_gas c xs + utilized_data_gas c ys"
  by (simp_all add: utilized_data_gas_def)

text \<open>
  The source multiplies the sum of the blob counts by the data gas of one blob; the
  specification sums the products.
\<close>

lemma blob_count_sum:
  "DATA_GAS_PER_BLOB c *
     sum_list (map (\<lambda>t. if is_BlobTransaction t then blob_hashes t else 0) ts)
   = utilized_data_gas c ts"
  by (induction ts) (simp_all add: algebra_simps)

text \<open>
  Claim C2. For every prior excess and every block, \<open>update_excess_data_gas\<close> returns
  \<open>max(0, excess + utilized_data - target)\<close>, where \<open>utilized_data\<close> is the sum over the
  block's blob transactions of blob count times data gas per blob; so the new excess is
  never negative, whatever the prior excess and the utilization.
\<close>

theorem update_excess_data_gas_formula:
  "update_excess_data_gas c s blk
     = max 0 (excess_data_gas s + utilized_data_gas c (txs blk) - TARGET_DATA_GAS_PER_BLOCK c)
   \<and> 0 \<le> update_excess_data_gas c s blk"
  by (simp add: update_excess_data_gas_def blob_count_sum max.commute)

text \<open>
  Claim C3. For every prior price and every block, \<open>update_price\<close> returns
  \<open>price * (1 + (utilized - target) / (target * denominator))\<close>, with \<open>utilized\<close> the sum
  of \<open>gas_used\<close> over the block: it returns a value exactly when the conversions and the
  division succeed, and the value is that expression, each operation a float operation.
  With target 15 million and denominator 8, a block that uses exactly 30 million gas
  gives \<open>price * 1.125\<close>: the factor is computed without rounding, so the result is the
  float product of the price and 1.125, the value of the Python expression
  \<open>price * 1.125\<close>; it is the rational \<open>price * 9/8\<close> whenever that is a double.
\<close>

theorem update_price_formula:
  "(update_price c s blk = Inr v \<longleftrightarrow>
      (\<exists>p u d q.
          py_float (price s) = Inr p \<and>
          float_of_int (utilized_gas (txs blk)) = Inr u \<and>
          float_of_int (BASEFEE_MAX_CHANGE_DENOMINATOR c) = Inr d \<and>
          fdiv (fsub u (to_double (BLOCK_RESOURCE_TARGETS c)))
               (fmul (to_double (BLOCK_RESOURCE_TARGETS c)) d) = Inr q \<and>
          v = fmul p (fadd (Finite 1) q)))
   \<and> (BLOCK_RESOURCE_TARGETS c = 15000000 \<and> BASEFEE_MAX_CHANGE_DENOMINATOR c = 8 \<and>
      utilized_gas (txs blk) = 30000000 \<and> py_float (price s) = Inr p \<longrightarrow>
      update_price c s blk = Inr (fmul p (Finite 1.125)) \<and>
      (\<forall>x. p = Finite x \<and> round_double (x * 1.125) = x * 1.125 \<and>
            \<bar>x * 1.125\<bar> < of_int (2 ^ 1024) \<longrightarrow>
            update_price c s blk = Inr (Finite (x * 1.125))))"
proof (intro conjI impI)
  show "update_price c s blk = Inr v \<longleftrightarrow>
      (\<exists>p u d q.
          py_float (price s) = Inr p \<and>
          float_of_int (utilized_gas (txs blk)) = Inr u \<and>
          float_of_int (BASEFEE_MAX_CHANGE_DENOMINATOR c) = Inr d \<and>
          fdiv (fsub u (to_double (BLOCK_RESOURCE_TARGETS c)))
               (fmul (to_double (BLOCK_RESOURCE_TARGETS c)) d) = Inr q \<and>
          v = fmul p (fadd (Finite 1) q))"
    by (auto simp: update_price_def utilized_gas_def Let_def split: sum.splits)
next
  assume a: "BLOCK_RESOURCE_TARGETS c = 15000000 \<and> BASEFEE_MAX_CHANGE_DENOMINATOR c = 8 \<and>
      utilized_gas (txs blk) = 30000000 \<and> py_float (price s) = Inr p"
  have "price_factor c blk = Inr (Finite 1.125)"
    using a by (simp add: price_factor_def utilized_gas_def float_of_int_def py_float_def
        to_double_def fsub_def double_values Let_def)
  with a show "update_price c s blk = Inr (fmul p (Finite 1.125))"
    by (simp add: update_price_factor)
  thus "\<forall>x. p = Finite x \<and> round_double (x * 1.125) = x * 1.125 \<and>
            \<bar>x * 1.125\<bar> < of_int (2 ^ 1024) \<longrightarrow>
            update_price c s blk = Inr (Finite (x * 1.125))"
    by (auto simp: to_double_def Let_def)
qed

text \<open>
  At price 100 the new price is 112.5. At price 0.1 (the double
  3602879701896397 / 2^55) it is the double nearest to the product,
  8106479329266893 / 2^56, as \<open>0.1 * 1.125\<close> is in Python.
\<close>

theorem update_price_formula_witness:
  "BLOCK_RESOURCE_TARGETS constants = 15000000 \<and>
   BASEFEE_MAX_CHANGE_DENOMINATOR constants = 8 \<and>
   utilized_gas (txs full_block) = 30000000 \<and>
   py_float (price some_state) = Inr (Finite 100) \<and>
   round_double (100 * 1.125) = 100 * 1.125 \<and>
   \<bar>100 * 1.125 :: rat\<bar> < of_int (2 ^ 1024) \<and>
   update_price constants some_state full_block = Inr (fmul (Finite 100) (Finite 1.125)) \<and>
   update_price constants some_state full_block = Inr (Finite 112.5) \<and>
   py_float (price tenth_state) = Inr (Finite (3602879701896397 / 36028797018963968)) \<and>
   update_price constants tenth_state full_block
     = Inr (fmul (Finite (3602879701896397 / 36028797018963968)) (Finite 1.125)) \<and>
   update_price constants tenth_state full_block
     = Inr (Finite (8106479329266893 / 72057594037927936))"
proof -
  have a: "BLOCK_RESOURCE_TARGETS constants = 15000000" by (simp add: constants_def)
  have b: "BASEFEE_MAX_CHANGE_DENOMINATOR constants = 8" by (simp add: constants_def)
  have c: "utilized_gas (txs full_block) = 30000000" by (simp add: full_block_def)
  have d: "py_float (price some_state) = Inr (Finite 100)"
    by (simp add: some_state_def py_float_def double_values Let_def)
  have e: "round_double (100 * 1.125) = 100 * 1.125" by code_simp
  have f: "\<bar>100 * 1.125 :: rat\<bar> < of_int (2 ^ 1024)" by simp
  have g: "py_float (price tenth_state) = Inr (Finite (3602879701896397 / 36028797018963968))"
    by (simp add: tenth_state_def py_float_def double_values Let_def)
  have h: "fmul (Finite (3602879701896397 / 36028797018963968)) (Finite 1.125)
             = Finite (8106479329266893 / 72057594037927936)"
    by (simp add: to_double_def double_values Let_def)
  note hundred = update_price_formula
    [of constants some_state full_block _ "Finite 100", THEN conjunct2, rule_format,
      OF conjI [OF a conjI [OF b conjI [OF c d]]]]
  note tenth = update_price_formula
    [of constants tenth_state full_block _ "Finite (3602879701896397 / 36028797018963968)",
      THEN conjunct2, rule_format, OF conjI [OF a conjI [OF b conjI [OF c g]]], THEN conjunct1]
  note exact = hundred [THEN conjunct2, rule_format, of 100, OF conjI [OF refl conjI [OF e f]]]
  from hundred [THEN conjunct1] exact tenth a b c d e f g h show ?thesis by simp
qed

text \<open>
  Claim C9, as stated, fails: \<open>update_price\<close> has no floor and no clamp. From the positive
  price 100, the block \<open>negative_block\<close> (total gas minus 225 million) gives the price
  minus 100: every operation is exact there.
\<close>

theorem update_price_no_floor_counterexample:
  "0 < price some_state \<and> py_float (price some_state) = Inr (Finite 100) \<and>
   update_price constants some_state negative_block = Inr (Finite (- 100)) \<and>
   \<not> fpos (Finite (- 100))"
  using update_negative_block
  by (simp add: some_state_def py_float_def double_values Let_def)

text \<open>
  Claim C9, amended. \<open>update_price\<close> clamps nothing: for a prior price that is a positive
  double and a block whose total gas converts to a float, it returns the float product
  of the price and the factor \<open>f = 1 + (utilized - target) / (target * denominator)\<close>.
  That product is positive exactly when \<open>f\<close> is plus infinity, or \<open>f\<close> is finite and the
  exact product \<open>price * f\<close> is above \<open>2^-1075\<close> (at or below it the product rounds to
  zero or is negative). With the notebook's constants:
  \<^item> for a total gas that is not negative, \<open>f \<ge> 0.875\<close> and the new price is positive;
  \<^item> for a total gas above minus 105 million, \<open>f\<close> is positive;
  \<^item> for a total gas of minus 105 million or less, \<open>f \<le> 0\<close> and the new price is not
    positive.
\<close>

theorem update_price_sign:
  assumes "round_double (price s) = price s" and "0 < price s"
    and "price s < of_int (2 ^ 1024)"
    and "float_of_int (utilized_gas (txs blk)) = Inr u"
  shows "\<exists>f. price_factor constants blk = Inr f \<and>
             update_price constants s blk = Inr (fmul (Finite (price s)) f) \<and>
             (fpos (fmul (Finite (price s)) f) \<longleftrightarrow>
                f = PosInf \<or> (\<exists>r. f = Finite r \<and> 1 / 2 ^ 1075 < price s * r)) \<and>
             (0 \<le> utilized_gas (txs blk) \<longrightarrow>
                fge f 0.875 \<and> fpos (fmul (Finite (price s)) f)) \<and>
             (- 105000000 < utilized_gas (txs blk) \<longrightarrow> fpos f) \<and>
             (utilized_gas (txs blk) \<le> - 105000000 \<longrightarrow>
                fle f 0 \<and> \<not> fpos (fmul (Finite (price s)) f))"
proof -
  let ?n = "utilized_gas (txs blk)"
  let ?p = "price s"
  let ?r0 = "round_double (of_int ?n)"
  have u: "u = Finite ?r0"
    using assms(4) by (auto simp: float_of_int_def py_float_def Let_def split: if_splits)
  have p: "py_float ?p = Inr (Finite ?p)"
    using assms(1,2,3) by (simp add: py_float_def Let_def)
  obtain f where f: "price_factor constants blk = Inr f"
    and q: "\<exists>q. fdiv (fsub (Finite ?r0) (Finite 15000000)) (Finite 120000000) = Inr q \<and>
               f = fadd (Finite 1) q"
    using price_factor_constants [OF assms(4)] u
    by (auto simp: fsub_def to_double_def Let_def split: if_splits)
  have upd: "update_price constants s blk = Inr (fmul (Finite ?p) f)"
    by (simp add: update_price_factor f p)
  have sign: "fpos (fmul (Finite ?p) f) \<longleftrightarrow>
      f = PosInf \<or> (\<exists>r. f = Finite r \<and> 1 / 2 ^ 1075 < ?p * r)"
    using assms(2) by (rule fpos_fmul)
  have pmin: "1 / 2 ^ 1074 \<le> ?p"
    using round_double_pos_ge [of ?p] assms(1,2) by simp
  have nonneg: "fge f 0.875 \<and> fpos (fmul (Finite ?p) f)" if "0 \<le> ?n"
  proof -
    have "(0::rat) \<le> of_int ?n" using that by simp
    hence "round_double 0 \<le> ?r0" by (rule round_double_mono)
    hence "0 \<le> ?r0" by simp
    from factor_ge [OF this factor_from_0] q have ge: "fge f 0.875" by auto
    have "fpos (fmul (Finite ?p) f)"
    proof (cases f)
      case (Finite r)
      with ge have "7 / 8 \<le> r" by simp
      hence "?p * (7 / 8) \<le> ?p * r" using assms(2) by (intro mult_left_mono) simp_all
      moreover have "1 / 2 ^ 1074 * (7 / 8) \<le> ?p * (7 / 8)"
        using pmin by (intro mult_right_mono) simp_all
      moreover have "(1::rat) / 2 ^ 1075 < 1 / 2 ^ 1074 * (7 / 8)" by simp
      ultimately have "1 / 2 ^ 1075 < ?p * r" by linarith
      with Finite sign show ?thesis by simp
    qed (use ge sign in simp_all)
    with ge show ?thesis ..
  qed
  have above: "fpos f" if "- 105000000 < ?n"
  proof -
    have "- 104999999 \<le> ?n" using that by simp
    hence "(of_int (- 104999999) :: rat) \<le> of_int ?n" by (simp only: of_int_le_iff)
    hence "(- 104999999 :: rat) \<le> of_int ?n" by simp
    hence "round_double (- 104999999) \<le> ?r0" by (rule round_double_mono)
    hence "- 104999999 \<le> ?r0" by (simp only: double_values)
    from factor_ge [OF this factor_from_threshold] q
    have "fge f (37529997 / 4503599627370496)" by auto
    thus ?thesis by (cases f) simp_all
  qed
  have below: "fle f 0 \<and> \<not> fpos (fmul (Finite ?p) f)" if "?n \<le> - 105000000"
  proof -
    have "(of_int ?n :: rat) \<le> of_int (- 105000000)" using that by (simp only: of_int_le_iff)
    hence "of_int ?n \<le> (- 105000000 :: rat)" by simp
    hence "?r0 \<le> round_double (- 105000000)" by (rule round_double_mono)
    hence "?r0 \<le> - 105000000" by (simp only: double_values)
    from factor_le [OF this factor_from_below] q have le: "fle f 0" by auto
    have "\<not> fpos (fmul (Finite ?p) f)"
    proof (cases f)
      case (Finite r)
      with le have "r \<le> 0" by simp
      hence "?p * r \<le> 0" using assms(2) by (simp add: mult_le_0_iff)
      moreover have "(0::rat) < 1 / 2 ^ 1075" by simp
      ultimately have "\<not> 1 / 2 ^ 1075 < ?p * r" by linarith
      with Finite sign show ?thesis by simp
    qed (use le sign in simp_all)
    with le show ?thesis ..
  qed
  from f upd sign nonneg above below show ?thesis by blast
qed

text \<open>
  From the price 100: the empty block (total gas 0) gives 87.5, and \<open>negative_block\<close>
  (total gas minus 225 million) gives minus 100.
\<close>

theorem update_price_sign_witness:
  "round_double (price some_state) = price some_state \<and> 0 < price some_state \<and>
   price some_state < of_int (2 ^ 1024) \<and>
   float_of_int (utilized_gas (txs (Block []))) = Inr (Finite 0) \<and>
   0 \<le> utilized_gas (txs (Block [])) \<and>
   update_price constants some_state (Block []) = Inr (Finite 87.5) \<and>
   fpos (Finite 87.5) \<and>
   float_of_int (utilized_gas (txs negative_block)) = Inr (Finite (- 225000000)) \<and>
   utilized_gas (txs negative_block) \<le> - 105000000 \<and>
   update_price constants some_state negative_block = Inr (Finite (- 100)) \<and>
   \<not> fpos (Finite (- 100)) \<and>
   (\<exists>f. price_factor constants (Block []) = Inr f \<and>
        update_price constants some_state (Block []) = Inr (fmul (Finite (price some_state)) f) \<and>
        fge f 0.875 \<and> fpos (fmul (Finite (price some_state)) f)) \<and>
   (\<exists>f. price_factor constants negative_block = Inr f \<and>
        update_price constants some_state negative_block
          = Inr (fmul (Finite (price some_state)) f) \<and>
        fle f 0 \<and> \<not> fpos (fmul (Finite (price some_state)) f))"
proof -
  have a: "round_double (price some_state) = price some_state"
    by (simp add: some_state_def double_values)
  have b: "0 < price some_state" by (simp add: some_state_def)
  have c: "price some_state < of_int (2 ^ 1024)" by (simp add: some_state_def)
  have d: "float_of_int (utilized_gas (txs (Block []))) = Inr (Finite 0)"
    by (simp add: float_of_int_def py_float_def Let_def)
  have e: "0 \<le> utilized_gas (txs (Block []))" by simp
  have g: "float_of_int (utilized_gas (txs negative_block)) = Inr (Finite (- 225000000))"
    by (simp add: negative_block_def float_of_int_def py_float_def double_values Let_def)
  have h: "utilized_gas (txs negative_block) \<le> - 105000000" by (simp add: negative_block_def)
  from update_price_sign [OF a b c d] e
  have empty: "\<exists>f. price_factor constants (Block []) = Inr f \<and>
        update_price constants some_state (Block []) = Inr (fmul (Finite (price some_state)) f) \<and>
        fge f 0.875 \<and> fpos (fmul (Finite (price some_state)) f)" by blast
  from update_price_sign [OF a b c g] h
  have neg: "\<exists>f. price_factor constants negative_block = Inr f \<and>
        update_price constants some_state negative_block
          = Inr (fmul (Finite (price some_state)) f) \<and>
        fle f 0 \<and> \<not> fpos (fmul (Finite (price some_state)) f)" by blast
  from empty neg a b c d e g h update_empty_block update_negative_block
  show ?thesis by simp
qed

section \<open>Properties of the block builder\<close>

lemma build_block_loop_included_from:
  "build_block_loop c xs inc u ud = inc @ included_from c xs u ud"
  by (induction xs arbitrary: inc u ud) simp_all

lemma included_from_subset: "set (included_from c xs u ud) \<subseteq> set xs"
  by (induction xs arbitrary: u ud) auto

lemma included_from_stopped:
  "BLOCK_RESOURCE_LIMITS c < of_int u \<Longrightarrow> included_from c xs u ud = []"
  by (cases xs) simp_all

lemma included_from_data_full:
  "MAX_DATA_GAS_PER_BLOCK c < ud \<Longrightarrow>
   included_from c xs u ud = included_from c (filter (\<lambda>t. \<not> is_BlobTransaction t) xs) u ud"
  by (induction xs arbitrary: u) (simp_all add: included_from_stopped not_le)

text \<open>
  Every included transaction was admitted while the running gas total was within the
  limit, and every included blob transaction while the running data total was: \<open>pre\<close> is
  what the loop had included when it came to \<open>t\<close>.
\<close>

lemma included_from_admitted:
  assumes "included_from c xs u ud = pre @ t # post"
  shows "of_int (u + utilized_gas pre) \<le> BLOCK_RESOURCE_LIMITS c \<and>
         (is_BlobTransaction t \<longrightarrow> ud + utilized_data_gas c pre \<le> MAX_DATA_GAS_PER_BLOCK c)"
  using assms
proof (induction xs arbitrary: u ud pre)
  case Nil
  then show ?case by simp
next
  case (Cons x xs)
  show ?case
  proof (cases "of_int u \<le> BLOCK_RESOURCE_LIMITS c")
    case False
    with Cons.prems show ?thesis by simp
  next
    case room: True
    show ?thesis
    proof (cases "is_BlobTransaction x")
      case blob: True
      show ?thesis
      proof (cases "ud \<le> MAX_DATA_GAS_PER_BLOCK c")
        case True
        with room blob Cons.prems
        have eq: "x # included_from c xs (u + gas_used x)
                        (ud + blob_hashes x * DATA_GAS_PER_BLOB c) = pre @ t # post"
          by simp
        show ?thesis
        proof (cases pre)
          case Nil
          with eq room True show ?thesis by simp
        next
          case (Cons p pre')
          with eq have "p = x" and
            "included_from c xs (u + gas_used x) (ud + blob_hashes x * DATA_GAS_PER_BLOB c)
               = pre' @ t # post" by auto
          from Cons.IH [OF this(2)] Cons \<open>p = x\<close> blob show ?thesis
            by (simp add: add.assoc)
        qed
      next
        case False
        with room blob Cons.prems have "included_from c xs u ud = pre @ t # post" by simp
        from Cons.IH [OF this] show ?thesis .
      qed
    next
      case nonblob: False
      with room Cons.prems
      have eq: "x # included_from c xs (u + gas_used x) ud = pre @ t # post" by simp
      show ?thesis
      proof (cases pre)
        case Nil
        with eq room nonblob show ?thesis by simp
      next
        case (Cons p pre')
        with eq have "p = x" and
          "included_from c xs (u + gas_used x) ud = pre' @ t # post" by auto
        from Cons.IH [OF this(2)] Cons \<open>p = x\<close> nonblob show ?thesis
          by (simp add: add.assoc)
      qed
    qed
  qed
qed

lemma build_block_eq:
  "calc_price_data c (excess_data_gas s) = Inr pd \<Longrightarrow>
   build_block c s = Inr (Block (included_from c (sorted_valid_demand s pd) 0 0))"
  by (simp add: build_block_def build_block_loop_included_from)

lemma set_sorted_valid_demand:
  "set (sorted_valid_demand s pd) = {t \<in> snd ` set (demand s). is_valid t (price s) pd}"
  by (auto simp: sorted_valid_demand_def)

lemma is_valid_iff:
  "is_valid t p pd \<longleftrightarrow>
     max_fee_per_gas t \<ge> p \<and> (is_BlobTransaction t \<longrightarrow> max_fee_per_data_gas t \<ge> of_int pd)"
  by (cases t) simp_all

subsection \<open>The example states, evaluated\<close>

lemma price_data_89: "calc_price_data constants 10000000 = Inr 89"
  by (simp add: calc_price_data_def fake_exponential_def constants_def
      fake_exponential_loop.simps)

lemma price_data_1: "calc_price_data constants 0 = Inr 1"
  by (simp add: calc_price_data_def fake_exponential_def constants_def
      fake_exponential_loop.simps)

lemma fraction_constants: "DATA_GASPRICE_UPDATE_FRACTION constants \<noteq> 0"
  by (simp add: constants_def)

lemma build_scenario_D:
  "build_block constants scenario_D = Inr (Block [Transaction ''t1'' 5 50000 200])"
  by (simp add: build_block_def scenario_D_def price_data_89 sorted_valid_demand_def
      get_premium_def) (simp add: constants_def)

lemma build_heavy:
  "build_block constants heavy_demand =
     Inr (Block [Transaction ''h2'' 3 20000000 200, Transaction ''h3'' 2 20000000 200])"
  by (simp add: build_block_def heavy_demand_def price_data_1 sorted_valid_demand_def
      get_premium_def) (simp add: constants_def)

lemma build_blob:
  "build_block constants blob_demand =
     Inr (Block [BlobTransaction ''q1'' 4 50000 200 10 3,
                 BlobTransaction ''q2'' 3 50000 200 10 3,
                 Transaction ''p1'' 1 50000 200])"
  by (simp add: build_block_def blob_demand_def price_data_1 sorted_valid_demand_def
      get_premium_def) (simp add: constants_def)


subsection \<open>Validity of what is included\<close>

text \<open>
  Claim C1. For every demand, price and excess (the update fraction not zero, so that the
  data price is computed), \<open>build_block\<close> returns a block, and every transaction of it
  is valid against the step's price and the data price derived from the excess. In
  particular a blob transaction whose \<open>max_fee_per_gas\<close> reaches the price but whose
  \<open>max_fee_per_data_gas\<close> is below the data price is not in the block, whatever its
  premium.
\<close>

theorem build_block_only_valid:
  assumes "DATA_GASPRICE_UPDATE_FRACTION c \<noteq> 0"
  shows "\<exists>blk price_data.
           build_block c s = Inr blk \<and> calc_price_data c (excess_data_gas s) = Inr price_data \<and>
           (\<forall>t \<in> set (txs blk). is_valid t (price s) price_data) \<and>
           (\<forall>t. is_BlobTransaction t \<and> max_fee_per_gas t \<ge> price s \<and>
                 max_fee_per_data_gas t < of_int price_data \<longrightarrow> t \<notin> set (txs blk))"
proof -
  from calc_price_data_total [OF assms] obtain pd
    where pd: "calc_price_data c (excess_data_gas s) = Inr pd" by blast
  let ?blk = "Block (included_from c (sorted_valid_demand s pd) 0 0)"
  have valid: "is_valid t (price s) pd" if "t \<in> set (txs ?blk)" for t
    using that included_from_subset [of c "sorted_valid_demand s pd" 0 0]
    by (auto simp: set_sorted_valid_demand)
  have "t \<notin> set (txs ?blk)"
    if "is_BlobTransaction t \<and> max_fee_per_gas t \<ge> price s \<and> max_fee_per_data_gas t < of_int pd"
    for t
  proof
    assume "t \<in> set (txs ?blk)"
    from valid [OF this] that show False by (simp add: is_valid_iff)
  qed
  with valid build_block_eq [OF pd] pd show ?thesis by blast
qed

text \<open>
  In \<open>scenario_D\<close> the blob transaction has the higher premium (500000 against 250000)
  and a fee ceiling of 1000 against the price 100, but a data-fee ceiling of 50 against
  the data price 89: the block holds the other transaction only.
\<close>

theorem build_block_only_valid_witness:
  "DATA_GASPRICE_UPDATE_FRACTION constants \<noteq> 0 \<and>
   calc_price_data constants (excess_data_gas scenario_D) = Inr 89 \<and>
   get_premium (BlobTransaction ''b1'' 10 50000 1000 50 2) (price scenario_D) = 500000 \<and>
   get_premium (Transaction ''t1'' 5 50000 200) (price scenario_D) = 250000 \<and>
   build_block constants scenario_D = Inr (Block [Transaction ''t1'' 5 50000 200]) \<and>
   (\<exists>blk price_data.
      build_block constants scenario_D = Inr blk \<and>
      calc_price_data constants (excess_data_gas scenario_D) = Inr price_data \<and>
      (\<forall>t \<in> set (txs blk). is_valid t (price scenario_D) price_data) \<and>
      (\<forall>t. is_BlobTransaction t \<and> max_fee_per_gas t \<ge> price scenario_D \<and>
            max_fee_per_data_gas t < of_int price_data \<longrightarrow> t \<notin> set (txs blk)))"
proof -
  have a: "calc_price_data constants (excess_data_gas scenario_D) = Inr 89"
    using price_data_89 by (simp add: scenario_D_def)
  have b: "get_premium (BlobTransaction ''b1'' 10 50000 1000 50 2) (price scenario_D) = 500000"
    by (simp add: get_premium_def scenario_D_def)
  have c: "get_premium (Transaction ''t1'' 5 50000 200) (price scenario_D) = 250000"
    by (simp add: get_premium_def scenario_D_def)
  from build_block_only_valid [OF fraction_constants, of scenario_D]
    fraction_constants a b c build_scenario_D
  show ?thesis by blast
qed

subsection \<open>The two overshoot bounds\<close>

text \<open>
  Claim C4. For every demand, price and excess (the update fraction not zero),
  \<open>build_block\<close> returns a block that is empty or whose total execution gas is at most
  the gas limit plus the largest \<open>gas_used\<close> of an included transaction: the last
  transaction was included while the running total was still within the limit. The
  bound needs no assumption on the sign of \<open>gas_used\<close>.
\<close>

theorem build_block_gas_overshoot:
  assumes "DATA_GASPRICE_UPDATE_FRACTION c \<noteq> 0"
  shows "\<exists>blk. build_block c s = Inr blk \<and>
           (txs blk = [] \<or>
            of_int (utilized_gas (txs blk))
              \<le> BLOCK_RESOURCE_LIMITS c + of_int (Max (gas_used ` set (txs blk))))"
proof -
  from calc_price_data_total [OF assms] obtain pd
    where pd: "calc_price_data c (excess_data_gas s) = Inr pd" by blast
  let ?ys = "included_from c (sorted_valid_demand s pd) 0 0"
  have "of_int (utilized_gas ?ys) \<le> BLOCK_RESOURCE_LIMITS c + of_int (Max (gas_used ` set ?ys))"
    if ne: "?ys \<noteq> []"
  proof -
    from ne obtain pre t where split: "?ys = pre @ [t]" by (metis rev_exhaust)
    hence "?ys = pre @ t # []" by simp
    from included_from_admitted [OF this]
    have "of_int (utilized_gas pre) \<le> BLOCK_RESOURCE_LIMITS c" by simp
    moreover have "gas_used t \<le> Max (gas_used ` set ?ys)"
      by (rule Max_ge) (simp_all add: split)
    hence "(of_int (gas_used t) :: rat) \<le> of_int (Max (gas_used ` set ?ys))" by simp
    moreover have "utilized_gas ?ys = utilized_gas pre + gas_used t"
      by (simp add: split)
    ultimately show ?thesis by simp
  qed
  with build_block_eq [OF pd] show ?thesis by auto
qed

text \<open>
  In \<open>heavy_demand\<close> two transactions of 20 million gas are included, 40 million in all:
  above the limit of 30 million, within 30 million plus 20 million.
\<close>

theorem build_block_gas_overshoot_witness:
  "DATA_GASPRICE_UPDATE_FRACTION constants \<noteq> 0 \<and>
   build_block constants heavy_demand =
     Inr (Block [Transaction ''h2'' 3 20000000 200, Transaction ''h3'' 2 20000000 200]) \<and>
   utilized_gas [Transaction ''h2'' 3 20000000 200, Transaction ''h3'' 2 20000000 200]
     = 40000000 \<and>
   BLOCK_RESOURCE_LIMITS constants = 30000000 \<and>
   (\<exists>blk. build_block constants heavy_demand = Inr blk \<and>
      (txs blk = [] \<or>
       of_int (utilized_gas (txs blk))
         \<le> BLOCK_RESOURCE_LIMITS constants + of_int (Max (gas_used ` set (txs blk)))))"
proof -
  have a: "utilized_gas [Transaction ''h2'' 3 20000000 200, Transaction ''h3'' 2 20000000 200]
             = 40000000" by simp
  have b: "BLOCK_RESOURCE_LIMITS constants = 30000000" by (simp add: constants_def)
  from build_block_gas_overshoot [OF fraction_constants, of heavy_demand]
    fraction_constants build_heavy a b
  show ?thesis by blast
qed

text \<open>
  Claim C10. The same for data gas: for every demand, price and excess (the update
  fraction not zero), \<open>build_block\<close> returns a block that has no blob transaction (and
  uses no data gas) or whose total data gas is at most \<open>MAX_DATA_GAS_PER_BLOCK\<close> plus the
  largest \<open>blob_hashes * DATA_GAS_PER_BLOB\<close> of an included blob transaction. And once
  the data gas of the block so far is above the limit, no blob transaction follows: only
  the one that crosses the limit goes beyond it. Neither part needs an assumption on the
  sign of the blob counts.
\<close>

theorem build_block_data_gas_overshoot:
  assumes "DATA_GASPRICE_UPDATE_FRACTION c \<noteq> 0"
  shows "\<exists>blk. build_block c s = Inr blk \<and>
           (filter is_BlobTransaction (txs blk) = [] \<and> utilized_data_gas c (txs blk) = 0 \<or>
            utilized_data_gas c (txs blk)
              \<le> MAX_DATA_GAS_PER_BLOCK c +
                  Max ((\<lambda>t. blob_hashes t * DATA_GAS_PER_BLOB c) `
                        set (filter is_BlobTransaction (txs blk)))) \<and>
           (\<forall>pre post. txs blk = pre @ post \<and>
                        MAX_DATA_GAS_PER_BLOCK c < utilized_data_gas c pre \<longrightarrow>
                        filter is_BlobTransaction post = [])"
proof -
  from calc_price_data_total [OF assms] obtain pd
    where pd: "calc_price_data c (excess_data_gas s) = Inr pd" by blast
  let ?ys = "included_from c (sorted_valid_demand s pd) 0 0"
  let ?w = "\<lambda>t. blob_hashes t * DATA_GAS_PER_BLOB c"
  have bound: "filter is_BlobTransaction ?ys = [] \<and> utilized_data_gas c ?ys = 0 \<or>
      utilized_data_gas c ?ys
        \<le> MAX_DATA_GAS_PER_BLOCK c + Max (?w ` set (filter is_BlobTransaction ?ys))"
  proof (cases "\<exists>t \<in> set ?ys. is_BlobTransaction t")
    case False
    hence "filter is_BlobTransaction ?ys = []" by (simp add: filter_empty_conv)
    thus ?thesis by (simp add: utilized_data_gas_def)
  next
    case True
    from split_list_last_prop [OF True] obtain pre t post
      where split: "?ys = pre @ t # post" and blob: "is_BlobTransaction t"
        and rest: "\<forall>z \<in> set post. \<not> is_BlobTransaction z" by blast
    from included_from_admitted [OF split] blob
    have "utilized_data_gas c pre \<le> MAX_DATA_GAS_PER_BLOCK c" by simp
    moreover from rest have "filter is_BlobTransaction post = []" by (simp add: filter_empty_conv)
    hence "utilized_data_gas c post = 0" by (simp add: utilized_data_gas_def)
    hence "utilized_data_gas c ?ys = utilized_data_gas c pre + ?w t"
      using blob by (simp add: split)
    moreover have "?w t \<le> Max (?w ` set (filter is_BlobTransaction ?ys))"
      by (rule Max_ge) (simp_all add: split blob)
    ultimately show ?thesis by linarith
  qed
  have after: "filter is_BlobTransaction post = []"
    if "?ys = pre @ post" and over: "MAX_DATA_GAS_PER_BLOCK c < utilized_data_gas c pre"
    for pre post
  proof (rule ccontr)
    assume "filter is_BlobTransaction post \<noteq> []"
    hence "\<exists>t \<in> set post. is_BlobTransaction t" by (simp add: filter_empty_conv)
    from split_list_first_prop [OF this] obtain p1 t p2
      where post: "post = p1 @ t # p2" and blob: "is_BlobTransaction t"
        and before: "\<forall>z \<in> set p1. \<not> is_BlobTransaction z" by blast
    from before have "filter is_BlobTransaction p1 = []" by (simp add: filter_empty_conv)
    hence p1: "utilized_data_gas c p1 = 0" by (simp add: utilized_data_gas_def)
    from that(1) post have "?ys = (pre @ p1) @ t # p2" by simp
    from included_from_admitted [OF this] blob
    have "utilized_data_gas c (pre @ p1) \<le> MAX_DATA_GAS_PER_BLOCK c" by simp
    with p1 over show False by simp
  qed
  let ?blk = "Block ?ys"
  have "build_block c s = Inr ?blk" by (rule build_block_eq [OF pd])
  moreover have "filter is_BlobTransaction (txs ?blk) = [] \<and> utilized_data_gas c (txs ?blk) = 0 \<or>
      utilized_data_gas c (txs ?blk)
        \<le> MAX_DATA_GAS_PER_BLOCK c + Max (?w ` set (filter is_BlobTransaction (txs ?blk)))"
    using bound by simp
  moreover have "\<forall>pre post. txs ?blk = pre @ post \<and>
      MAX_DATA_GAS_PER_BLOCK c < utilized_data_gas c pre \<longrightarrow> filter is_BlobTransaction post = []"
    using after by simp
  ultimately show ?thesis by blast
qed

text \<open>
  In \<open>blob_demand\<close> two transactions of three blobs are included, 786432 data gas in
  all: above the limit of 524288, within the limit plus 393216. The third blob
  transaction is left out.
\<close>

theorem build_block_data_gas_overshoot_witness:
  "DATA_GASPRICE_UPDATE_FRACTION constants \<noteq> 0 \<and>
   build_block constants blob_demand =
     Inr (Block [BlobTransaction ''q1'' 4 50000 200 10 3,
                 BlobTransaction ''q2'' 3 50000 200 10 3,
                 Transaction ''p1'' 1 50000 200]) \<and>
   utilized_data_gas constants
     [BlobTransaction ''q1'' 4 50000 200 10 3, BlobTransaction ''q2'' 3 50000 200 10 3,
      Transaction ''p1'' 1 50000 200] = 786432 \<and>
   MAX_DATA_GAS_PER_BLOCK constants = 524288 \<and>
   (\<exists>blk. build_block constants blob_demand = Inr blk \<and>
      (filter is_BlobTransaction (txs blk) = [] \<and> utilized_data_gas constants (txs blk) = 0 \<or>
       utilized_data_gas constants (txs blk)
         \<le> MAX_DATA_GAS_PER_BLOCK constants +
             Max ((\<lambda>t. blob_hashes t * DATA_GAS_PER_BLOB constants) `
                   set (filter is_BlobTransaction (txs blk)))) \<and>
      (\<forall>pre post. txs blk = pre @ post \<and>
                   MAX_DATA_GAS_PER_BLOCK constants < utilized_data_gas constants pre \<longrightarrow>
                   filter is_BlobTransaction post = []))"
proof -
  have a: "utilized_data_gas constants
     [BlobTransaction ''q1'' 4 50000 200 10 3, BlobTransaction ''q2'' 3 50000 200 10 3,
      Transaction ''p1'' 1 50000 200] = 786432" by (simp add: constants_def)
  have b: "MAX_DATA_GAS_PER_BLOCK constants = 524288" by (simp add: constants_def)
  from build_block_data_gas_overshoot [OF fraction_constants, of blob_demand]
    fraction_constants build_blob a b
  show ?thesis by blast
qed

subsection \<open>The two cutoffs\<close>

text \<open>
  Claim C5. The two cutoffs of the scan differ, at any point of the loop (any remaining
  transactions \<open>rest\<close>, any \<open>included\<close>, \<open>utilized\<close> and \<open>utilized_data\<close>):
  \<^item> once \<open>utilized\<close> is above the gas limit the loop stops, and nothing of \<open>rest\<close> is
    included;
  \<^item> once \<open>utilized_data\<close> is above the data limit the loop goes on as if \<open>rest\<close> held
    its non-blob transactions only: the blob transactions are skipped, the others are
    treated as before, under the gas cutoff;
  \<^item> so a non-blob transaction met while \<open>utilized_data\<close> is above the data limit and
    \<open>utilized\<close> within the gas limit is included;
  \<^item> and in the block \<open>build_block\<close> returns, nothing follows a prefix whose gas is
    above the gas limit.
\<close>

theorem build_block_loop_cutoffs:
  "(BLOCK_RESOURCE_LIMITS c < of_int utilized \<longrightarrow>
      build_block_loop c rest included utilized utilized_data = included)
   \<and> (MAX_DATA_GAS_PER_BLOCK c < utilized_data \<longrightarrow>
      build_block_loop c rest included utilized utilized_data
        = build_block_loop c (filter (\<lambda>t. \<not> is_BlobTransaction t) rest)
            included utilized utilized_data)
   \<and> (MAX_DATA_GAS_PER_BLOCK c < utilized_data \<and> of_int utilized \<le> BLOCK_RESOURCE_LIMITS c \<and>
      \<not> is_BlobTransaction t \<longrightarrow>
      build_block_loop c (t # rest) included utilized utilized_data
        = build_block_loop c rest (included @ [t]) (utilized + gas_used t) utilized_data \<and>
      t \<in> set (build_block_loop c (t # rest) included utilized utilized_data))
   \<and> (DATA_GASPRICE_UPDATE_FRACTION c \<noteq> 0 \<longrightarrow>
      (\<exists>blk. build_block c s = Inr blk \<and>
         (\<forall>pre post. txs blk = pre @ post \<and>
                      BLOCK_RESOURCE_LIMITS c < of_int (utilized_gas pre) \<longrightarrow> post = [])))"
proof (intro conjI impI)
  assume "BLOCK_RESOURCE_LIMITS c < of_int utilized"
  thus "build_block_loop c rest included utilized utilized_data = included"
    by (simp add: build_block_loop_included_from included_from_stopped)
next
  assume "MAX_DATA_GAS_PER_BLOCK c < utilized_data"
  from included_from_data_full [OF this]
  show "build_block_loop c rest included utilized utilized_data
        = build_block_loop c (filter (\<lambda>t. \<not> is_BlobTransaction t) rest)
            included utilized utilized_data"
    by (simp add: build_block_loop_included_from)
next
  assume "MAX_DATA_GAS_PER_BLOCK c < utilized_data \<and>
          of_int utilized \<le> BLOCK_RESOURCE_LIMITS c \<and> \<not> is_BlobTransaction t"
  thus "build_block_loop c (t # rest) included utilized utilized_data
        = build_block_loop c rest (included @ [t]) (utilized + gas_used t) utilized_data"
    by simp
next
  assume "MAX_DATA_GAS_PER_BLOCK c < utilized_data \<and>
          of_int utilized \<le> BLOCK_RESOURCE_LIMITS c \<and> \<not> is_BlobTransaction t"
  thus "t \<in> set (build_block_loop c (t # rest) included utilized utilized_data)"
    by (simp add: build_block_loop_included_from)
next
  assume "DATA_GASPRICE_UPDATE_FRACTION c \<noteq> 0"
  from calc_price_data_total [OF this] obtain pd
    where pd: "calc_price_data c (excess_data_gas s) = Inr pd" by blast
  let ?ys = "included_from c (sorted_valid_demand s pd) 0 0"
  have "post = []"
    if "?ys = pre @ post" and over: "BLOCK_RESOURCE_LIMITS c < of_int (utilized_gas pre)"
    for pre post
  proof (cases post)
    case Nil
    then show ?thesis .
  next
    case (Cons z p2)
    with that(1) have "?ys = pre @ z # p2" by simp
    from included_from_admitted [OF this] over show ?thesis by simp
  qed
  hence "\<forall>pre post. txs (Block ?ys) = pre @ post \<and>
      BLOCK_RESOURCE_LIMITS c < of_int (utilized_gas pre) \<longrightarrow> post = []" by simp
  with build_block_eq [OF pd]
  show "\<exists>blk. build_block c s = Inr blk \<and>
         (\<forall>pre post. txs blk = pre @ post \<and>
                      BLOCK_RESOURCE_LIMITS c < of_int (utilized_gas pre) \<longrightarrow> post = [])"
    by blast
qed

text \<open>
  The two cutoffs at work. In \<open>heavy_demand\<close>, after two transactions the gas total is
  40 million and the third transaction is not included. In \<open>blob_demand\<close>, after two blob
  transactions the data total is 786432: the third blob transaction is skipped and the
  ordinary transaction behind it is included.
\<close>

theorem build_block_loop_cutoffs_witness:
  "BLOCK_RESOURCE_LIMITS constants < of_int 40000000 \<and>
   build_block_loop constants [Transaction ''h1'' 1 20000000 200]
       [Transaction ''h2'' 3 20000000 200, Transaction ''h3'' 2 20000000 200] 40000000 0
     = [Transaction ''h2'' 3 20000000 200, Transaction ''h3'' 2 20000000 200] \<and>
   MAX_DATA_GAS_PER_BLOCK constants < 786432 \<and>
   of_int 100000 \<le> BLOCK_RESOURCE_LIMITS constants \<and>
   \<not> is_BlobTransaction (Transaction ''p1'' 1 50000 200) \<and>
   build_block_loop constants
       [BlobTransaction ''q3'' 2 50000 200 10 1, Transaction ''p1'' 1 50000 200]
       [BlobTransaction ''q1'' 4 50000 200 10 3, BlobTransaction ''q2'' 3 50000 200 10 3]
       100000 786432
     = build_block_loop constants [Transaction ''p1'' 1 50000 200]
         [BlobTransaction ''q1'' 4 50000 200 10 3, BlobTransaction ''q2'' 3 50000 200 10 3]
         100000 786432 \<and>
   build_block_loop constants [Transaction ''p1'' 1 50000 200]
       [BlobTransaction ''q1'' 4 50000 200 10 3, BlobTransaction ''q2'' 3 50000 200 10 3]
       100000 786432
     = [BlobTransaction ''q1'' 4 50000 200 10 3, BlobTransaction ''q2'' 3 50000 200 10 3,
        Transaction ''p1'' 1 50000 200] \<and>
   DATA_GASPRICE_UPDATE_FRACTION constants \<noteq> 0 \<and>
   build_block constants heavy_demand =
     Inr (Block [Transaction ''h2'' 3 20000000 200, Transaction ''h3'' 2 20000000 200]) \<and>
   build_block constants blob_demand =
     Inr (Block [BlobTransaction ''q1'' 4 50000 200 10 3,
                 BlobTransaction ''q2'' 3 50000 200 10 3,
                 Transaction ''p1'' 1 50000 200]) \<and>
   (\<exists>blk. build_block constants heavy_demand = Inr blk \<and>
      (\<forall>pre post. txs blk = pre @ post \<and>
                   BLOCK_RESOURCE_LIMITS constants < of_int (utilized_gas pre) \<longrightarrow> post = []))"
proof -
  have a: "BLOCK_RESOURCE_LIMITS constants < of_int 40000000" by (simp add: constants_def)
  have b: "MAX_DATA_GAS_PER_BLOCK constants < 786432" by (simp add: constants_def)
  have c: "of_int 100000 \<le> BLOCK_RESOURCE_LIMITS constants" by (simp add: constants_def)
  have d: "\<not> is_BlobTransaction (Transaction ''p1'' 1 50000 200)" by simp
  note stop = build_block_loop_cutoffs
    [of constants 40000000 "[Transaction ''h1'' 1 20000000 200]"
        "[Transaction ''h2'' 3 20000000 200, Transaction ''h3'' 2 20000000 200]" 0
        "Transaction ''h1'' 1 20000000 200" heavy_demand, THEN conjunct1, rule_format, OF a]
  note skip = build_block_loop_cutoffs
    [of constants 100000
        "[BlobTransaction ''q3'' 2 50000 200 10 1, Transaction ''p1'' 1 50000 200]"
        "[BlobTransaction ''q1'' 4 50000 200 10 3, BlobTransaction ''q2'' 3 50000 200 10 3]"
        786432 "Transaction ''p1'' 1 50000 200" blob_demand,
      THEN conjunct2, THEN conjunct1, rule_format, OF b]
  note incl = build_block_loop_cutoffs
    [of constants 100000 "[]"
        "[BlobTransaction ''q1'' 4 50000 200 10 3, BlobTransaction ''q2'' 3 50000 200 10 3]"
        786432 "Transaction ''p1'' 1 50000 200" blob_demand,
      THEN conjunct2, THEN conjunct2, THEN conjunct1, rule_format, OF conjI [OF b conjI [OF c d]],
      THEN conjunct1]
  have e: "build_block_loop constants [Transaction ''p1'' 1 50000 200]
       [BlobTransaction ''q1'' 4 50000 200 10 3, BlobTransaction ''q2'' 3 50000 200 10 3]
       100000 786432
     = [BlobTransaction ''q1'' 4 50000 200 10 3, BlobTransaction ''q2'' 3 50000 200 10 3,
        Transaction ''p1'' 1 50000 200]"
    using incl by simp
  have f: "filter (\<lambda>t. \<not> is_BlobTransaction t)
             [BlobTransaction ''q3'' 2 50000 200 10 1, Transaction ''p1'' 1 50000 200]
           = [Transaction ''p1'' 1 50000 200]" by simp
  note whole = build_block_loop_cutoffs
    [of constants 0 "[]" "[]" 0 "Transaction ''h1'' 1 20000000 200" heavy_demand,
      THEN conjunct2, THEN conjunct2, THEN conjunct2, rule_format, OF fraction_constants]
  from stop skip [unfolded f] e a b c d fraction_constants build_heavy build_blob whole
  show ?thesis by blast
qed

subsection \<open>What validation looks at\<close>




end
